theory Spec2Isabelle
  imports Main "HOL-Library.Sublist"
begin

section \<open>Strings as the scraper uses them\<close>

text \<open>
  The scraper is one TypeScript module, \<^verbatim>\<open>src/index.ts\<close>. Its strings are modelled as
  \<^typ>\<open>string\<close>. The two regular expressions of the module only look at ASCII
  characters, so every other character is just "a character outside the class".
\<close>

definition isDigit :: "char \<Rightarrow> bool" where
  \<comment> \<open>the class \<^verbatim>\<open>\d\<close> of a regular expression without the unicode flag: \<^verbatim>\<open>[0-9]\<close>\<close>
  "isDigit c = (c \<in> set ''0123456789'')"

definition isHandleChar :: "char \<Rightarrow> bool" where
  \<comment> \<open>the class \<^verbatim>\<open>[a-zA-Z0-9_-]\<close>\<close>
  "isHandleChar c =
     (c \<in> set ''abcdefghijklmnopqrstuvwxyzABCDEFGHIJKLMNOPQRSTUVWXYZ0123456789_-'')"

definition isWhiteSpace :: "char \<Rightarrow> bool" where
  \<comment> \<open>what \<^verbatim>\<open>String.prototype.trim\<close> strips, as far as one \<^typ>\<open>char\<close> can be it:
      space, TAB, LF, VT, FF, CR\<close>
  "isWhiteSpace c = (c \<in> {CHR '' '', CHR 0x09, CHR 0x0A, CHR 0x0B, CHR 0x0C, CHR 0x0D})"

definition trim :: "string \<Rightarrow> string" where
  "trim s = rev (dropWhile isWhiteSpace (rev (dropWhile isWhiteSpace s)))"

fun replace_first :: "string \<Rightarrow> string \<Rightarrow> string \<Rightarrow> string" where
  \<comment> \<open>\<^verbatim>\<open>s.replace(pat, by)\<close> with a string pattern: only the first occurrence\<close>
  "replace_first pat by [] = (if pat = [] then by else [])"
| "replace_first pat by (c # cs) =
     (if prefix pat (c # cs) then by @ drop (length pat) (c # cs)
      else c # replace_first pat by cs)"

fun split_js :: "string \<Rightarrow> string \<Rightarrow> string \<Rightarrow> string list" where
  \<comment> \<open>\<^verbatim>\<open>s.split(sep)\<close> for a non-empty separator; \<open>cur\<close> is the piece being read\<close>
  "split_js sep cur [] = [cur]"
| "split_js sep cur (c # cs) =
     (if sep \<noteq> [] \<and> prefix sep (c # cs)
      then cur # split_js sep [] (drop (length sep - 1) cs)
      else split_js sep (cur @ [c]) cs)"

definition index_js :: "'a list \<Rightarrow> nat \<Rightarrow> 'a option" where
  \<comment> \<open>\<^verbatim>\<open>xs[i]\<close>: \<^verbatim>\<open>undefined\<close> out of range\<close>
  "index_js xs i = (if i < length xs then Some (xs ! i) else None)"

definition or_js :: "string option \<Rightarrow> string \<Rightarrow> string" where
  \<comment> \<open>\<^verbatim>\<open>v || d\<close> for a string that may be \<^verbatim>\<open>undefined\<close>: the empty string is falsy too\<close>
  "or_js v d = (case v of None \<Rightarrow> d | Some s \<Rightarrow> if s = [] then d else s)"

subsection \<open>Numbers read and printed in base ten\<close>

text \<open>
  \<^verbatim>\<open>parseInt\<close> returns a JavaScript number, a double. The module gives it runs of digits
  only, so the numbers that occur are \<^verbatim>\<open>NaN\<close>, \<^verbatim>\<open>Infinity\<close> and the doubles whose value is
  a natural number; a finite one is kept as that value.
\<close>

datatype number = NaN | Finite nat | Infinity

definition digitVal :: "char \<Rightarrow> nat" where
  "digitVal c = of_char c - 48"

fun bitLength :: "nat \<Rightarrow> nat" where
  "bitLength n = (if n = 0 then 0 else Suc (bitLength (n div 2)))"

declare bitLength.simps [simp del]

definition roundToDouble :: "nat \<Rightarrow> number" where
  \<comment> \<open>the double nearest to a natural number: 53 significant bits, a tie goes to the
      even significand, and what rounds to \<open>2^1024\<close> or more is \<^verbatim>\<open>Infinity\<close>\<close>
  "roundToDouble n =
     (let e = bitLength n - 53
      in if e = 0 then Finite n
         else (let q = n div 2 ^ e; r = n mod 2 ^ e; half = 2 ^ (e - 1);
                   q' = (if half < r \<or> (r = half \<and> odd q) then q + 1 else q);
                   v = q' * 2 ^ e
               in if 2 ^ 1024 \<le> v then Infinity else Finite v))"

definition parseInt10 :: "string \<Rightarrow> number" where
  \<comment> \<open>\<^verbatim>\<open>parseInt(s, 10)\<close> on the strings the module gives it, which are runs of digits:
      the leading digits are read and rounded to a double, and no digit at all is
      \<^verbatim>\<open>NaN\<close>\<close>
  "parseInt10 s =
     (let ds = takeWhile isDigit s
      in if ds = [] then NaN else roundToDouble (foldl (\<lambda>n c. 10 * n + digitVal c) 0 ds))"

fun showNat :: "nat \<Rightarrow> string" where
  \<comment> \<open>the decimal digits of a natural number\<close>
  "showNat n =
     (if n < 10 then [char_of (48 + n)]
      else showNat (n div 10) @ [char_of (48 + n mod 10)])"

declare showNat.simps [simp del]

text \<open>
  A number inside a template literal is printed by \<^verbatim>\<open>Number::toString\<close>: with the fewest
  digits \<open>s\<close> (\<open>k\<close> of them) and the exponent \<open>n\<close> such that \<open>s * 10^(n - k)\<close> rounds to the
  number, the nearest such \<open>s\<close> when there are two and the even one on a tie; as digits
  and zeros when \<open>n\<close> is at most 21, in exponent form above. For a value below \<open>2^53\<close>
  these are the digits of the value.
\<close>

definition distance :: "nat \<Rightarrow> nat \<Rightarrow> nat" where
  "distance a b = (if a \<le> b then b - a else a - b)"

definition digitCandidates :: "nat \<Rightarrow> nat \<Rightarrow> (nat \<times> nat) list" where
  \<comment> \<open>the pairs \<open>(s, n)\<close> with \<open>k\<close> digits in \<open>s\<close> that round to \<open>x\<close>; next to \<open>x\<close> only the
      two multiples of \<open>10^(n - k)\<close> around it can\<close>
  "digitCandidates x k =
     (let nx = length (showNat x)
      in [(s, n). n \<leftarrow> [nx, nx + 1],
                  s \<leftarrow> [x div 10 ^ (n - k), x div 10 ^ (n - k) + 1],
                  10 ^ (k - 1) \<le> s \<and> s < 10 ^ k \<and> roundToDouble (s * 10 ^ (n - k)) = Finite x])"

definition closer :: "nat \<Rightarrow> nat \<Rightarrow> nat \<times> nat \<Rightarrow> nat \<times> nat \<Rightarrow> nat \<times> nat" where
  "closer x k a b =
     (let da = distance (fst a * 10 ^ (snd a - k)) x; db = distance (fst b * 10 ^ (snd b - k)) x
      in if db < da \<or> (db = da \<and> even (fst b)) then b else a)"

definition shortestDigits :: "nat \<Rightarrow> nat \<times> nat \<times> nat" where
  \<comment> \<open>\<open>(s, k, n)\<close> for a positive value; its own digits round to it, so the search ends\<close>
  "shortestDigits x =
     (case filter (\<lambda>k. digitCandidates x k \<noteq> []) [1..<Suc (length (showNat x))] of
        [] \<Rightarrow> (x, length (showNat x), length (showNat x))
      | k # ks \<Rightarrow>
          (let c = foldl (closer x k) (hd (digitCandidates x k)) (tl (digitCandidates x k))
           in (fst c, k, snd c)))"

definition numberToString :: "number \<Rightarrow> string" where
  "numberToString v =
     (case v of
        NaN \<Rightarrow> ''NaN''
      | Infinity \<Rightarrow> ''Infinity''
      | Finite x \<Rightarrow>
          if x = 0 then ''0''
          else (let (s, k, n) = shortestDigits x; ds = showNat s
                in if n \<le> 21 then ds @ replicate (n - k) CHR ''0''
                   else [hd ds] @ (if k = 1 then [] else ''.'' @ tl ds) @ ''e+'' @
                        showNat (n - 1)))"

section \<open>\<^verbatim>\<open>extractHandleFromUrl\<close>\<close>

text \<open>
  \<^verbatim>\<open>
  function extractHandleFromUrl(url: string): string | null {
    const match = url.match(/youtube\.com\/@([a-zA-Z0-9_-]+)/);
    return match ? match[1] : null;
  }
  \<close>
  The expression is not anchored: the engine tries every start position from the left and
  takes the first one where the literal is followed by at least one character of the
  class. The group is greedy and nothing follows it, so it takes the whole run.
\<close>

definition handleLiteral :: string where
  \<comment> \<open>the literal part \<^verbatim>\<open>youtube\.com\/@\<close> of the expression\<close>
  "handleLiteral = ''youtube.com/@''"

definition handleAt :: "string \<Rightarrow> string option" where
  \<comment> \<open>the match attempt at one start position; the result is group 1\<close>
  "handleAt s =
     (if prefix handleLiteral s
      then (let run = takeWhile isHandleChar (drop (length handleLiteral) s)
            in if run = [] then None else Some run)
      else None)"

fun extractHandleFromUrl :: "string \<Rightarrow> string option" where
  "extractHandleFromUrl [] = None"
| "extractHandleFromUrl (c # cs) =
     (case handleAt (c # cs) of
        Some h \<Rightarrow> Some h
      | None \<Rightarrow> extractHandleFromUrl cs)"

section \<open>\<^verbatim>\<open>parseDuration\<close>\<close>

text \<open>
  \<^verbatim>\<open>
  function parseDuration(duration: string): string {
    const match = duration.match(/PT(\d+H)?(\d+M)?(\d+S)?/);
    if (!match) return duration;
    const hours = parseInt(match[1]?.replace("H", "") || "0", 10);
    const minutes = parseInt(match[2]?.replace("M", "") || "0", 10);
    const seconds = parseInt(match[3]?.replace("S", "") || "0", 10);
    let readableDuration = "";
    if (hours > 0) readableDuration += `${hours}h `;
    if (minutes > 0) readableDuration += `${minutes}m `;
    if (seconds > 0) readableDuration += `${seconds}s`;
    return readableDuration.trim();
  }
  \<close>
  The three groups are optional, so the expression matches at the first \<^verbatim>\<open>PT\<close> of the
  string whatever follows. A group \<^verbatim>\<open>(\d+X)?\<close> takes the longest run of digits and
  needs the letter right after it; a shorter run would be followed by a digit, so
  backtracking finds nothing more, and the group is then skipped.
\<close>

definition unitGroup :: "char \<Rightarrow> string \<Rightarrow> string option \<times> string" where
  \<comment> \<open>one optional group at the current position: what it captured, and the rest\<close>
  "unitGroup u s =
     (let ds = takeWhile isDigit s; r = dropWhile isDigit s
      in if ds \<noteq> [] \<and> r \<noteq> [] \<and> hd r = u then (Some (ds @ [u]), tl r) else (None, s))"

definition groupsAt :: "string \<Rightarrow> string option \<times> string option \<times> string option" where
  "groupsAt s =
     (let (g1, s1) = unitGroup CHR ''H'' s;
          (g2, s2) = unitGroup CHR ''M'' s1;
          (g3, s3) = unitGroup CHR ''S'' s2
      in (g1, g2, g3))"

fun matchDuration :: "string \<Rightarrow> (string option \<times> string option \<times> string option) option" where
  "matchDuration [] = None"
| "matchDuration (c # cs) =
     (if prefix ''PT'' (c # cs) then Some (groupsAt (drop 2 (c # cs)))
      else matchDuration cs)"

definition groupNumber :: "string \<Rightarrow> string option \<Rightarrow> number" where
  \<comment> \<open>\<^verbatim>\<open>parseInt(match[i]?.replace(X, "") || "0", 10)\<close>\<close>
  "groupNumber u g = parseInt10 (or_js (map_option (replace_first u []) g) ''0'')"

definition positive :: "number \<Rightarrow> bool" where
  \<comment> \<open>\<^verbatim>\<open>n > 0\<close>, false for \<^verbatim>\<open>NaN\<close>\<close>
  "positive n = (case n of NaN \<Rightarrow> False | Finite k \<Rightarrow> 0 < k | Infinity \<Rightarrow> True)"

definition parseDuration :: "string \<Rightarrow> string" where
  "parseDuration duration =
     (case matchDuration duration of
        None \<Rightarrow> duration
      | Some (g1, g2, g3) \<Rightarrow>
          (let hours = groupNumber ''H'' g1;
               minutes = groupNumber ''M'' g2;
               seconds = groupNumber ''S'' g3;
               r0 = [];
               r1 = (if positive hours then r0 @ numberToString hours @ ''h '' else r0);
               r2 = (if positive minutes then r1 @ numberToString minutes @ ''m '' else r1);
               r3 = (if positive seconds then r2 @ numberToString seconds @ ''s'' else r2)
           in trim r3))"

section \<open>The remote API\<close>

text \<open>
  The three asynchronous functions call \<^verbatim>\<open>fetch(url)\<close> and read the body with
  \<^verbatim>\<open>response.json()\<close>, inside a \<^verbatim>\<open>try\<close>. Either of the two awaits can reject, and
  a body that parses to \<^verbatim>\<open>null\<close> makes the first property read throw: all of these end
  in the \<^verbatim>\<open>catch\<close> (\<open>Threw\<close>). Otherwise the body parses to an object whose \<^verbatim>\<open>items\<close>
  is missing (the API's error bodies have none) or is an array. The elements of the
  array are taken as the interfaces of the module declare them. The element of the
  detail lookup is typed \<^verbatim>\<open>any\<close> in the module: it is the video resource, whose
  \<^verbatim>\<open>statistics\<close> part may be missing. The loop reads \<^verbatim>\<open>details.statistics.viewCount\<close>
  outside every \<^verbatim>\<open>try\<close>, so a record without the part makes that read throw a
  TypeError which nothing catches: it ends the run.

  The module's calls of \<^verbatim>\<open>console.log\<close> and \<^verbatim>\<open>console.error\<close> change nothing it
  computes and are left out, and so are the two collaborators at the ends of the run,
  the reading of the sheet and the writing of the file.
\<close>

datatype 'a fetched = Threw | Json "'a list option"

record Channel =
  id :: string

record VideoSnippet =
  title :: string
  channelId :: string
  description :: string
  channelTitle :: string
  publishedAt :: string
  publishTime :: string

record VideoId =
  videoId :: string

record VideoItem =
  id :: VideoId
  snippet :: VideoSnippet

record Statistics =
  viewCount :: "string option"
  likeCount :: "string option"
  commentCount :: "string option"

record ContentDetails =
  duration :: "string option"

record VideoDetails =
  statistics :: "Statistics option"
  contentDetails :: ContentDetails

record VideoData =
  title :: string
  url :: string
  channelId :: string
  description :: string
  channelTitle :: string
  publishedAt :: string
  publishTime :: string
  viewCount :: "string option"
  likeCount :: "string option"
  commentCount :: "string option"
  duration :: "string option"
  readableDuration :: "string option"

text \<open>
  Where a record field of the model has taken the name of a variable of the module,
  the variable is renamed: \<open>req\<close> for the address \<^verbatim>\<open>url\<close> of a request, \<open>chan\<close> for
  \<^verbatim>\<open>channelId\<close>, \<open>vid\<close> for \<^verbatim>\<open>videoId\<close>, \<open>row_url\<close> for the \<^verbatim>\<open>url\<close> of the outer loop.

  The remote side answers a request knowing the requests made before it, so the same
  address can be answered differently the second time. The state of a run is the list
  of the addresses requested so far, oldest first.
\<close>

type_synonym requests = "string list"

record remote =
  channelsApi :: "requests \<Rightarrow> string \<Rightarrow> Channel fetched"
  searchApi :: "requests \<Rightarrow> string \<Rightarrow> VideoItem fetched"
  videosApi :: "requests \<Rightarrow> string \<Rightarrow> VideoDetails fetched"

definition channelsUrl :: "string \<Rightarrow> string \<Rightarrow> string" where
  "channelsUrl API_KEY handle =
     ''https://www.googleapis.com/youtube/v3/channels?part=id&forHandle='' @ handle @
     ''&key='' @ API_KEY"

definition searchUrl :: "string \<Rightarrow> string \<Rightarrow> string" where
  "searchUrl API_KEY chan =
     ''https://www.googleapis.com/youtube/v3/search?key='' @ API_KEY @
     ''&channelId='' @ chan @ ''&part=snippet&type=video&maxResults=10''"

definition videosUrl :: "string \<Rightarrow> string option \<Rightarrow> string" where
  \<comment> \<open>the identifier comes from an array index and can be \<^verbatim>\<open>undefined\<close>\<close>
  "videosUrl API_KEY vid =
     ''https://www.googleapis.com/youtube/v3/videos?part=statistics,contentDetails&id='' @
     (case vid of None \<Rightarrow> ''undefined'' | Some v \<Rightarrow> v) @ ''&key='' @ API_KEY"

section \<open>\<^verbatim>\<open>getChannelId\<close>, \<^verbatim>\<open>getVideos\<close>, \<^verbatim>\<open>getVideoDetails\<close>\<close>

definition getChannelId ::
  "remote \<Rightarrow> string \<Rightarrow> string \<Rightarrow> requests \<Rightarrow> string option \<times> requests" where
  \<comment> \<open>\<^verbatim>\<open>return json.items?.[0]?.id || null\<close>, and \<^verbatim>\<open>null\<close> from the \<^verbatim>\<open>catch\<close>\<close>
  "getChannelId R API_KEY handle h =
     (let req = channelsUrl API_KEY handle
      in (case channelsApi R h req of
            Threw \<Rightarrow> None
          | Json None \<Rightarrow> None
          | Json (Some []) \<Rightarrow> None
          | Json (Some (c # cs)) \<Rightarrow> (if Channel.id c = [] then None else Some (Channel.id c)),
          h @ [req]))"

definition videoUrlPrefix :: string where
  "videoUrlPrefix = ''https://www.youtube.com/watch?v=''"

definition toVideoData :: "VideoItem \<Rightarrow> VideoData" where
  \<comment> \<open>the object literal of the \<^verbatim>\<open>map\<close> callback: the five optional fields are not set\<close>
  "toVideoData video =
     \<lparr> VideoData.title = VideoSnippet.title (snippet video),
       url = videoUrlPrefix @ videoId (VideoItem.id video),
       channelId = VideoSnippet.channelId (snippet video),
       description = VideoSnippet.description (snippet video),
       channelTitle = VideoSnippet.channelTitle (snippet video),
       publishedAt = VideoSnippet.publishedAt (snippet video),
       publishTime = VideoSnippet.publishTime (snippet video),
       viewCount = None, likeCount = None, commentCount = None,
       duration = None, readableDuration = None \<rparr>"

definition getVideos ::
  "remote \<Rightarrow> string \<Rightarrow> string \<Rightarrow> requests \<Rightarrow> VideoData list \<times> requests" where
  \<comment> \<open>\<^verbatim>\<open>json.items.map(...)\<close>; without \<^verbatim>\<open>items\<close> the call throws a TypeError, which the
      \<^verbatim>\<open>catch\<close> turns into \<^verbatim>\<open>[]\<close>\<close>
  "getVideos R API_KEY chan h =
     (let req = searchUrl API_KEY chan
      in (case searchApi R h req of
            Threw \<Rightarrow> []
          | Json None \<Rightarrow> []
          | Json (Some items) \<Rightarrow> map toVideoData items,
          h @ [req]))"

definition getVideoDetails ::
  "remote \<Rightarrow> string \<Rightarrow> string option \<Rightarrow> requests \<Rightarrow> VideoDetails option \<times> requests" where
  \<comment> \<open>\<^verbatim>\<open>if (json.items && json.items.length > 0) return json.items[0]; return null\<close>\<close>
  "getVideoDetails R API_KEY vid h =
     (let req = videosUrl API_KEY vid
      in (case videosApi R h req of
            Threw \<Rightarrow> None
          | Json None \<Rightarrow> None
          | Json (Some []) \<Rightarrow> None
          | Json (Some (d # ds)) \<Rightarrow> Some d,
          h @ [req]))"

section \<open>\<^verbatim>\<open>processYouTubeChannels\<close>\<close>

text \<open>
  \<^verbatim>\<open>
  for (const video of videos) {
    const videoId = video.url.split("v=")[1];
    const details = await getVideoDetails(videoId);
    if (details) {
      video.viewCount = details.statistics.viewCount;
      video.likeCount = details.statistics.likeCount;
      video.commentCount = details.statistics.commentCount;
      // video.duration = details.contentDetails.duration;
      video.readableDuration = parseDuration(video.duration || "");
    }
  }
  allVideos.push(...videos);
  \<close>
  The loop updates the objects of \<open>videos\<close> in place; each object is fresh from the
  \<^verbatim>\<open>map\<close> of \<^verbatim>\<open>getVideos\<close>, so the model returns the updated list. The three
  asynchronous functions catch what they throw, and the parsers throw nothing; the one
  read that can throw in the loops is \<^verbatim>\<open>details.statistics.viewCount\<close>. Its TypeError
  leaves both loops and the function (\<open>Inl\<close>), with the requests made so far.
\<close>

definition lookupId :: "VideoData \<Rightarrow> string option" where
  "lookupId video = index_js (split_js ''v='' [] (url video)) 1"

datatype error = TypeError

definition enrichVideo ::
  "remote \<Rightarrow> string \<Rightarrow> VideoData \<Rightarrow> requests \<Rightarrow> (error + VideoData) \<times> requests" where
  \<comment> \<open>one turn of the inner loop; the first assignment throws when \<^verbatim>\<open>details.statistics\<close>
      is \<^verbatim>\<open>undefined\<close>, before the video is touched\<close>
  "enrichVideo R API_KEY video h =
     (let vid = lookupId video;
          (details, h') = getVideoDetails R API_KEY vid h
      in (case details of
            None \<Rightarrow> Inr video
          | Some d \<Rightarrow>
              (case statistics d of
                 None \<Rightarrow> Inl TypeError
               | Some st \<Rightarrow>
                   Inr (video\<lparr> viewCount := Statistics.viewCount st,
                               likeCount := Statistics.likeCount st,
                               commentCount := Statistics.commentCount st,
                               readableDuration :=
                                 Some (parseDuration (or_js (duration video) [])) \<rparr>)),
          h'))"

fun enrichVideos ::
  "remote \<Rightarrow> string \<Rightarrow> VideoData list \<Rightarrow> requests
     \<Rightarrow> (error + VideoData list) \<times> requests" where
  \<comment> \<open>the inner loop: a throw leaves it at once, the later lookups are not made\<close>
  "enrichVideos R API_KEY [] h = (Inr [], h)"
| "enrichVideos R API_KEY (video # videos) h =
     (case enrichVideo R API_KEY video h of
        (Inl e, h1) \<Rightarrow> (Inl e, h1)
      | (Inr video', h1) \<Rightarrow>
          (case enrichVideos R API_KEY videos h1 of
             (Inl e, h2) \<Rightarrow> (Inl e, h2)
           | (Inr videos', h2) \<Rightarrow> (Inr (video' # videos'), h2)))"

datatype row = Skipped | Pushed "VideoData list"

definition processUrl ::
  "remote \<Rightarrow> string \<Rightarrow> string \<Rightarrow> requests \<Rightarrow> (error + row) \<times> requests" where
  \<comment> \<open>the body of the outer loop; \<open>Skipped\<close> is one of its two \<^verbatim>\<open>continue\<close>s\<close>
  "processUrl R API_KEY row_url h =
     (case extractHandleFromUrl row_url of
        None \<Rightarrow> (Inr Skipped, h)
      | Some handle \<Rightarrow>
          if handle = [] then (Inr Skipped, h)
          else
            (let (chan, h1) = getChannelId R API_KEY handle h
             in (case chan of
                   None \<Rightarrow> (Inr Skipped, h1)
                 | Some c \<Rightarrow>
                     if c = [] then (Inr Skipped, h1)
                     else
                       (let (videos, h2) = getVideos R API_KEY c h1
                        in (case enrichVideos R API_KEY videos h2 of
                              (Inl e, h3) \<Rightarrow> (Inl e, h3)
                            | (Inr videos', h3) \<Rightarrow> (Inr (Pushed videos'), h3))))))"

fun processUrls ::
  "remote \<Rightarrow> string \<Rightarrow> string list \<Rightarrow> VideoData list \<Rightarrow> requests
     \<Rightarrow> (error + VideoData list) \<times> requests" where
  "processUrls R API_KEY [] allVideos h = (Inr allVideos, h)"
| "processUrls R API_KEY (row_url # urls) allVideos h =
     (case processUrl R API_KEY row_url h of
        (Inl e, h') \<Rightarrow> (Inl e, h')
      | (Inr Skipped, h') \<Rightarrow> processUrls R API_KEY urls allVideos h'
      | (Inr (Pushed videos), h') \<Rightarrow> processUrls R API_KEY urls (allVideos @ videos) h')"

definition processYouTubeChannels ::
  "remote \<Rightarrow> string \<Rightarrow> string list \<Rightarrow> requests
     \<Rightarrow> (error + VideoData list option) \<times> requests" where
  \<comment> \<open>\<open>sheet\<close> is what \<^verbatim>\<open>readGoogleSheet\<close> returned. \<open>Inr (Some allVideos)\<close> is the
      collection handed to \<^verbatim>\<open>writeToExcel\<close>, \<open>Inr None\<close> the return before the loop, and
      \<open>Inl\<close> the rejection of the promise: \<^verbatim>\<open>writeToExcel\<close> is not called\<close>
  "processYouTubeChannels R API_KEY sheet h =
     (let urls = take 5 sheet
      in if urls = [] then (Inr None, h)
         else (case processUrls R API_KEY urls [] h of
                 (Inl e, h') \<Rightarrow> (Inl e, h')
               | (Inr allVideos, h') \<Rightarrow> (Inr (Some allVideos), h')))"

section \<open>Notions the properties are stated with\<close>

definition pushed :: "row \<Rightarrow> VideoData list" where
  \<comment> \<open>what one turn of the outer loop appends to \<^verbatim>\<open>allVideos\<close>\<close>
  "pushed r = (case r of Skipped \<Rightarrow> [] | Pushed videos \<Rightarrow> videos)"

definition summaryOf :: "VideoData \<Rightarrow> VideoData" where
  \<comment> \<open>the video summary inside an output row: the five enrichment fields cleared\<close>
  "summaryOf video =
     video\<lparr> viewCount := None, likeCount := None, commentCount := None,
            duration := None, readableDuration := None \<rparr>"

definition detailRequests :: "string \<Rightarrow> VideoData list \<Rightarrow> requests" where
  \<comment> \<open>the addresses of the detail lookups for a list of videos, in order\<close>
  "detailRequests API_KEY videos = map (\<lambda>video. videosUrl API_KEY (lookupId video)) videos"

definition rowItems :: "remote \<Rightarrow> string \<Rightarrow> string \<Rightarrow> requests \<Rightarrow> VideoItem list" where
  \<comment> \<open>the catalog sequence of a row: the items upstream returned for the row's channel,
      none when the row has no handle, no channel, or the catalog fetch failed\<close>
  "rowItems R API_KEY row_url h =
     (case extractHandleFromUrl row_url of
        None \<Rightarrow> []
      | Some handle \<Rightarrow>
          (case getChannelId R API_KEY handle h of
             (None, h1) \<Rightarrow> []
           | (Some c, h1) \<Rightarrow>
               (case searchApi R h1 (searchUrl API_KEY c) of
                  Json (Some items) \<Rightarrow> items
                | _ \<Rightarrow> [])))"

fun catalogItems :: "remote \<Rightarrow> string \<Rightarrow> string list \<Rightarrow> requests \<Rightarrow> VideoItem list list" where
  \<comment> \<open>the catalog sequences of the rows, each row starting where the one before stopped\<close>
  "catalogItems R API_KEY [] h = []"
| "catalogItems R API_KEY (row_url # urls) h =
     rowItems R API_KEY row_url h #
     catalogItems R API_KEY urls (snd (processUrl R API_KEY row_url h))"

definition rowCount :: "error + VideoData list option \<Rightarrow> nat option" where
  \<comment> \<open>how many rows a run hands to the output, when it hands any\<close>
  "rowCount result = (case result of Inr (Some videos) \<Rightarrow> Some (length videos) | _ \<Rightarrow> None)"

definition statisticsPresent :: "remote \<Rightarrow> bool" where
  \<comment> \<open>the remote side never answers a detail lookup with a first record that lacks
      its \<^verbatim>\<open>statistics\<close>\<close>
  "statisticsPresent R \<longleftrightarrow>
     (\<forall>h req d ds. videosApi R h req = Json (Some (d # ds)) \<longrightarrow> statistics d \<noteq> None)"

definition durationUnset :: "VideoData \<Rightarrow> bool" where
  \<comment> \<open>no duration, and a readable duration that is absent or the empty string\<close>
  "durationUnset video \<longleftrightarrow>
     duration video = None \<and>
     (readableDuration video = None \<or> readableDuration video = Some [])"

subsection \<open>A remote side to run the module against\<close>

text \<open>
  The channel \<^verbatim>\<open>@alpha\<close> has a catalog of \<open>n\<close> videos; the detail lookup answers for the
  first, throws for the second and finds nothing for the others. The catalog fetch of
  the channel \<^verbatim>\<open>@beta\<close> throws. The handle \<^verbatim>\<open>@nobody\<close> matches no channel, \<^verbatim>\<open>@blank\<close>
  matches a record whose identifier is the empty string, and every other channel lookup
  throws.
\<close>

definition demoItem :: "string \<Rightarrow> VideoItem" where
  "demoItem v =
     \<lparr> VideoItem.id = \<lparr> videoId = v \<rparr>,
       snippet = \<lparr> VideoSnippet.title = ''Title '' @ v, channelId = ''UC_alpha'',
                   description = ''About '' @ v, channelTitle = ''Alpha'',
                   publishedAt = ''2024-01-01T00:00:00Z'', publishTime = ''2024-01-01T00:00:00Z'' \<rparr> \<rparr>"

definition demoItems :: "nat \<Rightarrow> VideoItem list" where
  "demoItems n = map (\<lambda>i. demoItem (''vid'' @ showNat i)) [0..<n]"

definition demoDetails :: VideoDetails where
  "demoDetails =
     \<lparr> statistics =
         Some \<lparr> Statistics.viewCount = Some ''100'', likeCount = Some ''7'', commentCount = None \<rparr>,
       contentDetails = \<lparr> ContentDetails.duration = Some ''PT2H3M4S'' \<rparr> \<rparr>"

definition demoRemote :: "nat \<Rightarrow> remote" where
  "demoRemote n =
     \<lparr> channelsApi = (\<lambda>h req.
         if req = channelsUrl ''KEY'' ''alpha'' then Json (Some [\<lparr> Channel.id = ''UC_alpha'' \<rparr>])
         else if req = channelsUrl ''KEY'' ''beta''
         then Json (Some [\<lparr> Channel.id = ''UC_beta'' \<rparr>, \<lparr> Channel.id = ''UC_other'' \<rparr>])
         else if req = channelsUrl ''KEY'' ''nobody'' then Json (Some [])
         else if req = channelsUrl ''KEY'' ''blank'' then Json (Some [\<lparr> Channel.id = [] \<rparr>])
         else Threw),
       searchApi = (\<lambda>h req.
         if req = searchUrl ''KEY'' ''UC_alpha''
         then Json (Some (demoItems n))
         else if req = searchUrl ''KEY'' ''UC_beta'' then Threw
         else Json None),
       videosApi = (\<lambda>h req.
         if req = videosUrl ''KEY'' (Some ''vid0'') then Json (Some [demoDetails])
         else if req = videosUrl ''KEY'' (Some ''vid1'') then Threw
         else Json (Some [])) \<rparr>"

text \<open>
  The same remote side, with a catalog of three, except that the detail lookup of the
  third video answers with a record that has no \<^verbatim>\<open>statistics\<close>.
\<close>

definition bareDetails :: VideoDetails where
  "bareDetails =
     \<lparr> statistics = None,
       contentDetails = \<lparr> ContentDetails.duration = Some ''PT5M'' \<rparr> \<rparr>"

definition bareRemote :: remote where
  "bareRemote =
     (demoRemote 3)\<lparr> videosApi := (\<lambda>h req.
        if req = videosUrl ''KEY'' (Some ''vid2'') then Json (Some [bareDetails])
        else videosApi (demoRemote 3) h req) \<rparr>"

definition demoSheet :: "string list" where
  "demoSheet =
     [''https://www.youtube.com/@beta'', ''https://youtu.be/dQw4w9WgXcQ'',
      ''https://youtube.com/@nobody'', ''https://www.youtube.com/@alpha/videos'',
      ''https://www.youtube.com/@blank'', ''https://www.youtube.com/@alpha'',
      ''https://www.youtube.com/@alpha'']"

section \<open>Properties of the two parsers\<close>

lemma matchDuration_None_iff: "matchDuration d = None \<longleftrightarrow> \<not> sublist ''PT'' d"
proof (induction d)
  case Nil
  show ?case by simp
next
  case (Cons c cs)
  show ?case
  proof (cases "prefix ''PT'' (c # cs)")
    case True
    then have "sublist ''PT'' (c # cs)" by (rule prefix_imp_sublist)
    with True show ?thesis by simp
  next
    case False
    then have "sublist ''PT'' (c # cs) \<longleftrightarrow> sublist ''PT'' cs"
      by (auto simp: sublist_Cons_right)
    with False Cons.IH show ?thesis by auto
  qed
qed

lemma parseDuration_unanchored: "parseDuration ''xPTy'' = ''''"
  by code_simp

subsection \<open>The handle of a channel address\<close>

lemma takeWhile_Nil_iff: "takeWhile P xs = [] \<longleftrightarrow> (xs = [] \<or> \<not> P (hd xs))"
  by (cases xs) auto

lemma takeWhile_run:
  "list_all P run \<Longrightarrow> rest = [] \<or> \<not> P (hd rest) \<Longrightarrow> takeWhile P (run @ rest) = run"
  by (induction run) (auto simp: takeWhile_Nil_iff)

lemma handleAt_Some_iff:
  "handleAt s = Some h \<longleftrightarrow>
     (\<exists>tl. s = handleLiteral @ tl \<and> h = takeWhile isHandleChar tl \<and> h \<noteq> [])"
  by (auto simp: handleAt_def Let_def prefix_def)

lemma handleAt_None_iff:
  "handleAt s = None \<longleftrightarrow> \<not> (\<exists>c rest. s = handleLiteral @ c # rest \<and> isHandleChar c)"
proof -
  have "(\<exists>tl. s = handleLiteral @ tl \<and> takeWhile isHandleChar tl \<noteq> [])
       \<longleftrightarrow> (\<exists>c rest. s = handleLiteral @ c # rest \<and> isHandleChar c)"
    (is "?L \<longleftrightarrow> ?R")
  proof
    assume ?L
    then obtain tl where s: "s = handleLiteral @ tl" and t: "takeWhile isHandleChar tl \<noteq> []"
      by blast
    from t obtain c rest where "tl = c # rest" "isHandleChar c"
      by (cases tl) (auto split: if_splits)
    with s show ?R by blast
  next
    assume ?R
    then obtain c rest where s: "s = handleLiteral @ c # rest" and c: "isHandleChar c"
      by blast
    from c have "takeWhile isHandleChar (c # rest) \<noteq> []" by simp
    with s show ?L by blast
  qed
  moreover have "handleAt s = None \<longleftrightarrow> \<not> (\<exists>h. handleAt s = Some h)" by auto
  ultimately show ?thesis by (simp add: handleAt_Some_iff)
qed

lemma handleAt_Nil: "handleAt [] = None"
  by (simp add: handleAt_def handleLiteral_def)

lemma extract_None_iff:
  "extractHandleFromUrl u = None \<longleftrightarrow> (\<forall>pre s. u = pre @ s \<longrightarrow> handleAt s = None)"
proof (induction u)
  case Nil
  show ?case by (simp add: handleAt_Nil)
next
  case (Cons c cs)
  show ?case
  proof (cases "handleAt (c # cs)")
    case (Some h)
    then have "\<not> (\<forall>pre s. c # cs = pre @ s \<longrightarrow> handleAt s = None)"
      by (metis append_Nil option.distinct(1))
    with Some show ?thesis by simp
  next
    case None
    have "(\<forall>pre s. c # cs = pre @ s \<longrightarrow> handleAt s = None)
       \<longleftrightarrow> (\<forall>pre s. cs = pre @ s \<longrightarrow> handleAt s = None)"
      using None by (auto simp: Cons_eq_append_conv)
    with None Cons.IH show ?thesis by simp
  qed
qed

lemma extract_first:
  "handleAt s = Some h \<Longrightarrow> (\<forall>p q. pre = p @ q \<and> q \<noteq> [] \<longrightarrow> handleAt (q @ s) = None)
     \<Longrightarrow> extractHandleFromUrl (pre @ s) = Some h"
proof (induction pre)
  case Nil
  then show ?case by (cases s) (auto simp: handleAt_Nil)
next
  case (Cons c cs)
  from Cons.prems(2) have "handleAt ((c # cs) @ s) = None" by blast
  moreover have "\<forall>p q. cs = p @ q \<and> q \<noteq> [] \<longrightarrow> handleAt (q @ s) = None"
    using Cons.prems(2) by (metis append_Cons)
  ultimately show ?case using Cons.IH [OF Cons.prems(1)] by simp
qed

lemma extract_Some_run:
  "extractHandleFromUrl u = Some h \<Longrightarrow> h \<noteq> [] \<and> list_all isHandleChar h"
proof (induction u)
  case Nil
  then show ?case by simp
next
  case (Cons d ds)
  show ?case
  proof (cases "handleAt (d # ds)")
    case None
    with Cons show ?thesis by simp
  next
    case (Some k)
    with Cons.prems have "handleAt (d # ds) = Some h" by simp
    then obtain tl where "h = takeWhile isHandleChar tl" "h \<noteq> []"
      unfolding handleAt_Some_iff by blast
    then show ?thesis
      by (metis list_all_iff set_takeWhileD)
  qed
qed

lemma extract_at_first_match:
  assumes run: "run \<noteq> []" "list_all isHandleChar run"
    and rest: "rest = [] \<or> \<not> isHandleChar (hd rest)"
    and first: "\<forall>pre' c rest'. pre @ handleLiteral @ run @ rest = pre' @ handleLiteral @ c # rest'
                  \<and> isHandleChar c \<longrightarrow> length pre \<le> length pre'"
  shows "extractHandleFromUrl (pre @ handleLiteral @ run @ rest) = Some run"
proof -
  let ?s = "handleLiteral @ run @ rest"
  have tw: "takeWhile isHandleChar (run @ rest) = run"
    by (rule takeWhile_run [OF run(2) rest])
  have "?s = handleLiteral @ (run @ rest) \<and> run = takeWhile isHandleChar (run @ rest) \<and> run \<noteq> []"
    using run(1) tw by simp
  then have here: "handleAt ?s = Some run"
    unfolding handleAt_Some_iff by (rule exI)
  have before: "\<forall>p q. pre = p @ q \<and> q \<noteq> [] \<longrightarrow> handleAt (q @ ?s) = None"
  proof (intro allI impI)
    fix p q assume pq: "pre = p @ q \<and> q \<noteq> []"
    show "handleAt (q @ ?s) = None"
    proof (rule ccontr)
      assume "handleAt (q @ ?s) \<noteq> None"
      then obtain c rest' where q: "q @ ?s = handleLiteral @ c # rest'" and c: "isHandleChar c"
        unfolding handleAt_None_iff by blast
      have "pre @ ?s = p @ handleLiteral @ c # rest'"
        using pq q by simp
      with first c have "length pre \<le> length p" by blast
      with pq show False by simp
    qed
  qed
  from extract_first [OF here before] show ?thesis .
qed

lemma extract_no_match:
  assumes "\<not> (\<exists>pre c rest. u = pre @ handleLiteral @ c # rest \<and> isHandleChar c)"
  shows "extractHandleFromUrl u = None"
proof -
  have "\<forall>pre s. u = pre @ s \<longrightarrow> handleAt s = None"
  proof (intro allI impI)
    fix pre s assume "u = pre @ s"
    with assms show "handleAt s = None" unfolding handleAt_None_iff by blast
  qed
  then show ?thesis unfolding extract_None_iff .
qed

lemma extract_some_match:
  assumes "\<exists>pre c rest. u = pre @ handleLiteral @ c # rest \<and> isHandleChar c"
  shows "\<exists>h. extractHandleFromUrl u = Some h \<and> h \<noteq> [] \<and> list_all isHandleChar h"
proof -
  from assms obtain pre c rest where decomp: "u = pre @ handleLiteral @ c # rest"
    and c: "isHandleChar c" by blast
  have "handleLiteral @ c # rest = handleLiteral @ c # rest \<and> isHandleChar c"
    using c by simp
  then have "\<exists>c' rest'. handleLiteral @ c # rest = handleLiteral @ c' # rest' \<and> isHandleChar c'"
    by (intro exI)
  then have "handleAt (handleLiteral @ c # rest) \<noteq> None"
    unfolding handleAt_None_iff by simp
  moreover have "handleAt (handleLiteral @ c # rest) = None"
    if "extractHandleFromUrl u = None"
    using that [unfolded extract_None_iff, rule_format, OF decomp] .
  ultimately have "extractHandleFromUrl u \<noteq> None"
    by (rule contrapos_nn)
  then obtain h where h: "extractHandleFromUrl u = Some h" by blast
  with extract_Some_run [OF h] show ?thesis by blast
qed

lemma literal_not_before:
  assumes "list_all (\<lambda>i. \<not> prefix handleLiteral (drop i u)) [0..<n]"
  shows "\<forall>pre' c rest'. u = pre' @ handleLiteral @ c # rest' \<and> isHandleChar c
           \<longrightarrow> n \<le> length pre'"
proof (intro allI impI)
  fix pre' :: string and c rest'
  assume a: "u = pre' @ handleLiteral @ c # rest' \<and> isHandleChar c"
  then have "drop (length pre') u = handleLiteral @ c # rest'" by simp
  then have p: "prefix handleLiteral (drop (length pre') u)" by simp
  show "n \<le> length pre'"
  proof (rule ccontr)
    assume "\<not> n \<le> length pre'"
    then have "length pre' \<in> set [0..<n]" by simp
    with assms have "\<not> prefix handleLiteral (drop (length pre') u)"
      unfolding list_all_iff by (rule bspec)
    with p show False by (rule notE [rotated])
  qed
qed

text \<open>
  \<^bold>\<open>C7.\<close> The handle is read at the first place where the literal \<^verbatim>\<open>youtube.com/@\<close> is
  followed by a character of the class: when \<open>u\<close> is \<open>pre\<close>, the literal, a non-empty
  run of class characters that cannot be extended (\<open>rest\<close> is empty or starts outside the
  class), and no such place starts earlier than \<open>pre\<close> ends, the result is that run. A
  string with such a place always yields a non-empty run of class characters, and a
  string without one yields \<open>None\<close>. The function has no other outcome.
\<close>

theorem extractHandleFromUrl_spec:
  "handleLiteral = ''youtube.com/@'' \<and>
   (u = pre @ handleLiteral @ run @ rest \<and> run \<noteq> [] \<and> list_all isHandleChar run \<and>
      (rest = [] \<or> \<not> isHandleChar (hd rest)) \<and>
      (\<forall>pre' c rest'. u = pre' @ handleLiteral @ c # rest' \<and> isHandleChar c
          \<longrightarrow> length pre \<le> length pre')
     \<longrightarrow> extractHandleFromUrl u = Some run) \<and>
   ((\<exists>pre c rest. u = pre @ handleLiteral @ c # rest \<and> isHandleChar c)
     \<longrightarrow> (\<exists>h. extractHandleFromUrl u = Some h \<and> h \<noteq> [] \<and> list_all isHandleChar h)) \<and>
   (\<not> (\<exists>pre c rest. u = pre @ handleLiteral @ c # rest \<and> isHandleChar c)
     \<longrightarrow> extractHandleFromUrl u = None)"
proof (intro conjI impI; (elim conjE)?)
  show "handleLiteral = ''youtube.com/@''" by (rule handleLiteral_def)
next
  assume decomp: "u = pre @ handleLiteral @ run @ rest"
    and run: "run \<noteq> []" "list_all isHandleChar run"
    and rest: "rest = [] \<or> \<not> isHandleChar (hd rest)"
    and first: "\<forall>pre' c rest'. u = pre' @ handleLiteral @ c # rest' \<and> isHandleChar c
          \<longrightarrow> length pre \<le> length pre'"
  show "extractHandleFromUrl u = Some run"
    using extract_at_first_match [OF run rest first [unfolded decomp]] unfolding decomp .
next
  assume "\<exists>pre c rest. u = pre @ handleLiteral @ c # rest \<and> isHandleChar c"
  then show "\<exists>h. extractHandleFromUrl u = Some h \<and> h \<noteq> [] \<and> list_all isHandleChar h"
    by (rule extract_some_match)
next
  assume "\<not> (\<exists>pre c rest. u = pre @ handleLiteral @ c # rest \<and> isHandleChar c)"
  then show "extractHandleFromUrl u = None"
    by (rule extract_no_match)
qed

theorem extractHandleFromUrl_spec_witness:
  "extractHandleFromUrl ''https://www.youtube.com/@Linus-Tech_Tips/videos'' = Some ''Linus-Tech_Tips'' \<and>
   extractHandleFromUrl ''https://youtu.be/dQw4w9WgXcQ'' = None"
proof -
  let ?u = "''https://www.youtube.com/@Linus-Tech_Tips/videos''"
  have eq: "?u = ''https://www.'' @ handleLiteral @ ''Linus-Tech_Tips'' @ ''/videos''"
    by (simp add: handleLiteral_def)
  have l: "''Linus-Tech_Tips'' \<noteq> [] \<and> list_all isHandleChar ''Linus-Tech_Tips''" by code_simp
  have r: "''/videos'' = [] \<or> \<not> isHandleChar (hd ''/videos'')" by code_simp
  have len: "length ''https://www.'' = 12" by simp
  have n: "list_all (\<lambda>i. \<not> prefix handleLiteral (drop i ?u)) [0..<12]"
    by code_simp
  have f: "\<forall>pre' c rest'. ?u = pre' @ handleLiteral @ c # rest' \<and> isHandleChar c
           \<longrightarrow> length ''https://www.'' \<le> length pre'"
    unfolding len by (rule literal_not_before [OF n])
  note spec = extractHandleFromUrl_spec [of ?u "''https://www.''" "''Linus-Tech_Tips''"
      "''/videos''", THEN conjunct2, THEN conjunct1, THEN mp]
  have "extractHandleFromUrl ?u = Some ''Linus-Tech_Tips''"
    by (rule spec) (intro conjI eq l [THEN conjunct1] l [THEN conjunct2] r f)
  moreover have "extractHandleFromUrl ''https://youtu.be/dQw4w9WgXcQ'' = None"
    by code_simp
  ultimately show ?thesis by (rule conjI)
qed

subsection \<open>Durations\<close>

text \<open>
  \<^bold>\<open>C3.\<close> \<^verbatim>\<open>parseDuration\<close> on the inputs the specification lists, and on every string
  the expression does not match. The expression is not anchored and its groups are
  optional, so the strings it does not match are those without \<^verbatim>\<open>PT\<close> in them; the
  function is total and has no failing branch.
\<close>

theorem parseDuration_spec:
  "parseDuration ''PT2H3M4S'' = ''2h 3m 4s'' \<and>
   parseDuration ''PT0S'' = '''' \<and>
   parseDuration ''PT5M'' = ''5m'' \<and>
   parseDuration ''PT2H'' = ''2h'' \<and>
   parseDuration ''abc'' = ''abc'' \<and>
   parseDuration '''' = '''' \<and>
   (\<forall>d. \<not> sublist ''PT'' d \<longrightarrow> parseDuration d = d)"
proof (intro conjI allI impI)
  show "parseDuration ''PT2H3M4S'' = ''2h 3m 4s''" by code_simp
  show "parseDuration ''PT0S'' = ''''" by code_simp
  show "parseDuration ''PT5M'' = ''5m''" by code_simp
  show "parseDuration ''PT2H'' = ''2h''" by code_simp
  show "parseDuration ''abc'' = ''abc''" by code_simp
  show "parseDuration '''' = ''''" by code_simp
next
  fix d :: string
  assume "\<not> sublist ''PT'' d"
  then have "matchDuration d = None" by (rule matchDuration_None_iff [THEN iffD2])
  then show "parseDuration d = d" by (simp add: parseDuration_def)
qed

theorem parseDuration_spec_witness:
  "\<not> sublist ''PT'' ''12:30'' \<and> parseDuration ''12:30'' = ''12:30''"
proof -
  have "matchDuration ''12:30'' = None" by code_simp
  then have n: "\<not> sublist ''PT'' ''12:30''" by (rule matchDuration_None_iff [THEN iffD1])
  from parseDuration_spec have "\<forall>d. \<not> sublist ''PT'' d \<longrightarrow> parseDuration d = d"
    by (elim conjE)
  then have "\<not> sublist ''PT'' ''12:30'' \<longrightarrow> parseDuration ''12:30'' = ''12:30''"
    by (rule spec)
  then have "parseDuration ''12:30'' = ''12:30''" using n by (rule mp)
  with n show ?thesis by (rule conjI)
qed

section \<open>Properties of the pipeline\<close>

subsection \<open>The three remote calls\<close>

lemma getChannelId_requests: "snd (getChannelId R k handle h) = h @ [channelsUrl k handle]"
  by (simp add: getChannelId_def Let_def)

lemma getChannelId_nonempty: "fst (getChannelId R k handle h) \<noteq> Some []"
  by (simp add: getChannelId_def Let_def split: fetched.split option.split list.split)

lemma getVideos_requests: "snd (getVideos R k c h) = h @ [searchUrl k c]"
  by (simp add: getVideos_def Let_def)

lemma getVideos_items:
  "fst (getVideos R k c h) =
     map toVideoData (case searchApi R h (searchUrl k c) of Json (Some items) \<Rightarrow> items | _ \<Rightarrow> [])"
  by (simp add: getVideos_def Let_def split: fetched.split option.split)

lemma getVideoDetails_requests: "snd (getVideoDetails R k v h) = h @ [videosUrl k v]"
  by (simp add: getVideoDetails_def Let_def)

lemma getVideoDetails_Some:
  "fst (getVideoDetails R k v h) = Some d \<Longrightarrow>
   \<exists>ds. videosApi R h (videosUrl k v) = Json (Some (d # ds))"
  by (auto simp: getVideoDetails_def Let_def split: fetched.splits option.splits list.splits)

subsection \<open>One turn of the inner loop\<close>

lemma enrichVideo_requests:
  "snd (enrichVideo R k video h) = h @ [videosUrl k (lookupId video)]"
  using getVideoDetails_requests [of R k "lookupId video" h]
  by (cases "getVideoDetails R k (lookupId video) h") (simp add: enrichVideo_def Let_def)

lemma enrichVideo_failed:
  "fst (getVideoDetails R k (lookupId video) h) = None \<Longrightarrow>
   fst (enrichVideo R k video h) = Inr video"
  by (cases "getVideoDetails R k (lookupId video) h") (simp add: enrichVideo_def Let_def)

lemma enrichVideo_found:
  "fst (getVideoDetails R k (lookupId video) h) = Some d \<Longrightarrow> statistics d = Some st \<Longrightarrow>
   fst (enrichVideo R k video h) =
     Inr (video\<lparr> viewCount := Statistics.viewCount st,
                 likeCount := Statistics.likeCount st,
                 commentCount := Statistics.commentCount st,
                 readableDuration := Some (parseDuration (or_js (duration video) [])) \<rparr>)"
  by (cases "getVideoDetails R k (lookupId video) h") (simp add: enrichVideo_def Let_def)

lemma enrichVideo_thrown:
  "fst (getVideoDetails R k (lookupId video) h) = Some d \<Longrightarrow> statistics d = None \<Longrightarrow>
   fst (enrichVideo R k video h) = Inl TypeError"
  by (cases "getVideoDetails R k (lookupId video) h") (simp add: enrichVideo_def Let_def)

lemma enrichVideo_cases:
  obtains (failed) "fst (getVideoDetails R k (lookupId video) h) = None"
      "fst (enrichVideo R k video h) = Inr video"
  | (found) d st where "fst (getVideoDetails R k (lookupId video) h) = Some d"
      "statistics d = Some st"
      "fst (enrichVideo R k video h) =
         Inr (video\<lparr> viewCount := Statistics.viewCount st,
                     likeCount := Statistics.likeCount st,
                     commentCount := Statistics.commentCount st,
                     readableDuration := Some (parseDuration (or_js (duration video) [])) \<rparr>)"
  | (thrown) d where "fst (getVideoDetails R k (lookupId video) h) = Some d"
      "statistics d = None" "fst (enrichVideo R k video h) = Inl TypeError"
proof (cases "fst (getVideoDetails R k (lookupId video) h)")
  case None
  with failed enrichVideo_failed show ?thesis by blast
next
  case (Some d)
  show ?thesis
  proof (cases "statistics d")
    case None
    with Some thrown enrichVideo_thrown show ?thesis by blast
  next
    case (Some st)
    with \<open>fst (getVideoDetails R k (lookupId video) h) = Some d\<close> found enrichVideo_found
    show ?thesis by blast
  qed
qed

lemma summaryOf_enrichVideo:
  "fst (enrichVideo R k video h) = Inr video' \<Longrightarrow> summaryOf video' = summaryOf video"
  by (rule enrichVideo_cases [of R k video h]) (auto simp: summaryOf_def)

lemma enrichVideo_present:
  "statisticsPresent R \<Longrightarrow> \<exists>video'. fst (enrichVideo R k video h) = Inr video'"
proof (rule enrichVideo_cases [of R k video h])
  fix d
  assume present: "statisticsPresent R"
    and d: "fst (getVideoDetails R k (lookupId video) h) = Some d" "statistics d = None"
  from getVideoDetails_Some [OF d(1)]
  obtain ds where "videosApi R h (videosUrl k (lookupId video)) = Json (Some (d # ds))" ..
  with present have "statistics d \<noteq> None" unfolding statisticsPresent_def by blast
  with d(2) show ?thesis by simp
qed simp_all

subsection \<open>The inner loop\<close>

lemma enrichVideos_Inr_Cons:
  "fst (enrichVideos R k (v # vs) h) = Inr out \<longleftrightarrow>
     (\<exists>v' vs'. out = v' # vs' \<and> fst (enrichVideo R k v h) = Inr v' \<and>
        fst (enrichVideos R k vs (snd (enrichVideo R k v h))) = Inr vs')"
  by (cases "enrichVideo R k v h"; cases "fst (enrichVideo R k v h)";
      cases "enrichVideos R k vs (snd (enrichVideo R k v h))";
      cases "fst (enrichVideos R k vs (snd (enrichVideo R k v h)))") auto

lemma enrichVideos_snd_Cons:
  "fst (enrichVideos R k (v # vs) h) = Inr out \<Longrightarrow>
   snd (enrichVideos R k (v # vs) h) = snd (enrichVideos R k vs (snd (enrichVideo R k v h)))"
  by (cases "enrichVideo R k v h"; cases "fst (enrichVideo R k v h)";
      cases "enrichVideos R k vs (snd (enrichVideo R k v h))";
      cases "fst (enrichVideos R k vs (snd (enrichVideo R k v h)))") auto

lemma enrichVideos_requests:
  "fst (enrichVideos R k videos h) = Inr out \<Longrightarrow>
   snd (enrichVideos R k videos h) = h @ detailRequests k videos"
proof (induction videos arbitrary: h out)
  case Nil
  show ?case by (simp add: detailRequests_def)
next
  case (Cons v vs)
  from Cons.prems obtain v' vs' where
    rest: "fst (enrichVideos R k vs (snd (enrichVideo R k v h))) = Inr vs'"
    unfolding enrichVideos_Inr_Cons by blast
  have "snd (enrichVideos R k (v # vs) h) = snd (enrichVideos R k vs (snd (enrichVideo R k v h)))"
    by (rule enrichVideos_snd_Cons [OF Cons.prems])
  also have "\<dots> = (h @ [videosUrl k (lookupId v)]) @ detailRequests k vs"
    using Cons.IH [OF rest] by (simp only: enrichVideo_requests)
  finally show ?case by (simp add: detailRequests_def)
qed

lemma enrichVideos_length:
  "fst (enrichVideos R k videos h) = Inr out \<Longrightarrow> length out = length videos"
proof (induction videos arbitrary: h out)
  case Nil
  then show ?case by simp
next
  case (Cons v vs)
  from Cons.prems obtain v' vs' where "out = v' # vs'"
    "fst (enrichVideos R k vs (snd (enrichVideo R k v h))) = Inr vs'"
    unfolding enrichVideos_Inr_Cons by blast
  with Cons.IH show ?case by simp
qed

lemma enrichVideos_nth:
  "fst (enrichVideos R k videos h) = Inr out \<Longrightarrow> i < length videos \<Longrightarrow>
   fst (enrichVideo R k (videos ! i) (h @ detailRequests k (take i videos))) = Inr (out ! i)"
proof (induction videos arbitrary: h out i)
  case Nil
  then show ?case by simp
next
  case (Cons v vs)
  from Cons.prems(1) obtain v' vs' where out: "out = v' # vs'"
    and first: "fst (enrichVideo R k v h) = Inr v'"
    and rest: "fst (enrichVideos R k vs (snd (enrichVideo R k v h))) = Inr vs'"
    unfolding enrichVideos_Inr_Cons by blast
  show ?case
  proof (cases i)
    case 0
    with out first show ?thesis by (simp add: detailRequests_def)
  next
    case (Suc j)
    with Cons.prems(2) have j: "j < length vs" by simp
    from Cons.IH [OF rest j]
    have "fst (enrichVideo R k (vs ! j)
            ((h @ [videosUrl k (lookupId v)]) @ detailRequests k (take j vs))) = Inr (vs' ! j)"
      by (simp only: enrichVideo_requests)
    with Suc out show ?thesis by (simp add: detailRequests_def)
  qed
qed

lemma summaryOf_enrichVideos:
  "fst (enrichVideos R k videos h) = Inr out \<Longrightarrow> map summaryOf out = map summaryOf videos"
proof (induction videos arbitrary: h out)
  case Nil
  then show ?case by simp
next
  case (Cons v vs)
  from Cons.prems obtain v' vs' where "out = v' # vs'"
    "fst (enrichVideo R k v h) = Inr v'"
    "fst (enrichVideos R k vs (snd (enrichVideo R k v h))) = Inr vs'"
    unfolding enrichVideos_Inr_Cons by blast
  with Cons.IH show ?case by (simp add: summaryOf_enrichVideo)
qed

lemma enrichVideos_present:
  "statisticsPresent R \<Longrightarrow> \<exists>out. fst (enrichVideos R k videos h) = Inr out"
proof (induction videos arbitrary: h)
  case Nil
  show ?case by simp
next
  case (Cons v vs)
  from enrichVideo_present [OF Cons.prems] obtain v' where "fst (enrichVideo R k v h) = Inr v'"
    by blast
  moreover from Cons.IH [OF Cons.prems] obtain vs' where
    "fst (enrichVideos R k vs (snd (enrichVideo R k v h))) = Inr vs'" by blast
  ultimately have "fst (enrichVideos R k (v # vs) h) = Inr (v' # vs')"
    unfolding enrichVideos_Inr_Cons by blast
  then show ?case by blast
qed

subsection \<open>One turn of the outer loop\<close>

lemma processUrl_no_handle:
  "extractHandleFromUrl u = None \<Longrightarrow> processUrl R k u h = (Inr Skipped, h)"
  by (simp add: processUrl_def)

lemma processUrl_no_channel:
  "extractHandleFromUrl u = Some handle \<Longrightarrow> getChannelId R k handle h = (None, h1) \<Longrightarrow>
   processUrl R k u h = (Inr Skipped, h1)"
  using extract_Some_run [of u handle] by (simp add: processUrl_def)

lemma processUrl_reached:
  assumes "extractHandleFromUrl u = Some handle"
    and "getChannelId R k handle h = (Some c, h1)"
    and "getVideos R k c h1 = (cat, h2)"
  shows "processUrl R k u h =
           (map_sum (\<lambda>e. e) Pushed (fst (enrichVideos R k cat h2)), snd (enrichVideos R k cat h2))"
proof -
  from assms(1) have "handle \<noteq> []" using extract_Some_run [of u handle] by blast
  moreover from assms(2) getChannelId_nonempty [of R k handle h] have "c \<noteq> []" by auto
  ultimately show ?thesis using assms
    by (cases "enrichVideos R k cat h2"; cases "fst (enrichVideos R k cat h2)")
       (simp_all add: processUrl_def)
qed

lemma processUrl_cases:
  obtains (no_handle) "extractHandleFromUrl u = None" "processUrl R k u h = (Inr Skipped, h)"
  | (no_channel) handle h1 where "extractHandleFromUrl u = Some handle"
      "getChannelId R k handle h = (None, h1)" "processUrl R k u h = (Inr Skipped, h1)"
  | (reached) handle c h1 cat h2 where "extractHandleFromUrl u = Some handle"
      "getChannelId R k handle h = (Some c, h1)" "getVideos R k c h1 = (cat, h2)"
      "processUrl R k u h =
         (map_sum (\<lambda>e. e) Pushed (fst (enrichVideos R k cat h2)), snd (enrichVideos R k cat h2))"
proof (cases "extractHandleFromUrl u")
  case None
  with no_handle processUrl_no_handle show ?thesis by blast
next
  case (Some handle)
  obtain ch h1 where g: "getChannelId R k handle h = (ch, h1)"
    by (cases "getChannelId R k handle h")
  show ?thesis
  proof (cases ch)
    case None
    with Some g no_channel processUrl_no_channel show ?thesis by blast
  next
    case (Some c)
    obtain cat h2 where v: "getVideos R k c h1 = (cat, h2)" by (cases "getVideos R k c h1")
    from \<open>extractHandleFromUrl u = Some handle\<close> g Some v
      processUrl_reached [of u handle R k h c h1 cat h2] reached
    show ?thesis by blast
  qed
qed



subsection \<open>The outer loop\<close>

lemma processUrls_Cons_Inl:
  "fst (processUrl R k u h) = Inl e \<Longrightarrow>
   processUrls R k (u # us) allVideos h = (Inl e, snd (processUrl R k u h))"
  by (cases "processUrl R k u h") simp

lemma processUrls_Cons_Inr:
  "fst (processUrl R k u h) = Inr r \<Longrightarrow>
   processUrls R k (u # us) allVideos h =
     processUrls R k us (allVideos @ pushed r) (snd (processUrl R k u h))"
  by (cases "processUrl R k u h"; cases r) (simp_all add: pushed_def)

lemma processUrls_acc:
  "processUrls R k urls allVideos h =
     (map_sum (\<lambda>e. e) ((@) allVideos) (fst (processUrls R k urls [] h)),
      snd (processUrls R k urls [] h))"
proof (induction urls arbitrary: allVideos h)
  case Nil
  show ?case by simp
next
  case (Cons u us)
  show ?case
  proof (cases "fst (processUrl R k u h)")
    case (Inl e)
    then show ?thesis by (simp add: processUrls_Cons_Inl del: processUrls.simps)
  next
    case (Inr r)
    let ?h = "snd (processUrl R k u h)"
    have "processUrls R k (u # us) allVideos h = processUrls R k us (allVideos @ pushed r) ?h"
      by (rule processUrls_Cons_Inr [OF Inr])
    also have "\<dots> = (map_sum (\<lambda>e. e) ((@) (allVideos @ pushed r)) (fst (processUrls R k us [] ?h)),
                      snd (processUrls R k us [] ?h))"
      by (rule Cons.IH)
    finally have l: "processUrls R k (u # us) allVideos h =
        (map_sum (\<lambda>e. e) ((@) (allVideos @ pushed r)) (fst (processUrls R k us [] ?h)),
         snd (processUrls R k us [] ?h))" .
    have "processUrls R k (u # us) [] h = processUrls R k us ([] @ pushed r) ?h"
      by (rule processUrls_Cons_Inr [OF Inr])
    also have "\<dots> = (map_sum (\<lambda>e. e) ((@) ([] @ pushed r)) (fst (processUrls R k us [] ?h)),
                      snd (processUrls R k us [] ?h))"
      by (rule Cons.IH)
    finally have r: "processUrls R k (u # us) [] h =
        (map_sum (\<lambda>e. e) ((@) (pushed r)) (fst (processUrls R k us [] ?h)),
         snd (processUrls R k us [] ?h))" by simp
    show ?thesis unfolding l r
      by (cases "fst (processUrls R k us [] ?h)") simp_all
  qed
qed

lemma processUrls_Cons:
  "processUrls R k (u # us) allVideos h =
     (case fst (processUrl R k u h) of
        Inl e \<Rightarrow> (Inl e, snd (processUrl R k u h))
      | Inr r \<Rightarrow>
          (map_sum (\<lambda>e. e) (\<lambda>rest. allVideos @ pushed r @ rest)
             (fst (processUrls R k us [] (snd (processUrl R k u h)))),
           snd (processUrls R k us [] (snd (processUrl R k u h)))))"
proof (cases "fst (processUrl R k u h)")
  case (Inl e)
  then show ?thesis by (simp add: processUrls_Cons_Inl del: processUrls.simps)
next
  case (Inr r)
  let ?h = "snd (processUrl R k u h)"
  have "processUrls R k (u # us) allVideos h = processUrls R k us (allVideos @ pushed r) ?h"
    by (rule processUrls_Cons_Inr [OF Inr])
  also have "\<dots> = (map_sum (\<lambda>e. e) ((@) (allVideos @ pushed r)) (fst (processUrls R k us [] ?h)),
                    snd (processUrls R k us [] ?h))"
    by (rule processUrls_acc)
  finally show ?thesis using Inr
    by (cases "fst (processUrls R k us [] ?h)") simp_all
qed



lemma processYouTubeChannels_loop:
  "processYouTubeChannels R k sheet h =
     (if take 5 sheet = [] then (Inr None, h)
      else (map_sum (\<lambda>e. e) Some (fst (processUrls R k (take 5 sheet) [] h)),
            snd (processUrls R k (take 5 sheet) [] h)))"
  by (cases "processUrls R k (take 5 sheet) [] h";
      cases "fst (processUrls R k (take 5 sheet) [] h)")
     (simp_all add: processYouTubeChannels_def Let_def)

subsection \<open>Output rows and catalog items\<close>

lemma summaryOf_toVideoData: "summaryOf (toVideoData it) = toVideoData it"
  by (simp add: summaryOf_def toVideoData_def)



lemma toVideoData_plain:
  "viewCount (toVideoData it) = None \<and> likeCount (toVideoData it) = None \<and>
   commentCount (toVideoData it) = None \<and> duration (toVideoData it) = None \<and>
   readableDuration (toVideoData it) = None"
  by (simp add: toVideoData_def)

lemma getVideos_plain:
  assumes "getVideos R k c h1 = (cat, h2)" and "i < length cat"
  shows "\<exists>it. cat ! i = toVideoData it"
proof -
  from assms(1) have "cat = fst (getVideos R k c h1)" by simp
  then obtain items where cat: "cat = map toVideoData items"
    using getVideos_items [of R k c h1] by blast
  with assms(2) show ?thesis by auto
qed

subsection \<open>The identifier a detail lookup is made for\<close>






subsection \<open>The duration of an output row\<close>

lemma parseDuration_Nil: "parseDuration [] = []"
  by (simp add: parseDuration_def)

lemma enrichVideo_found_plain:
  assumes "fst (getVideoDetails R k (lookupId video) h) = Some d"
    and "fst (enrichVideo R k video h) = Inr video'"
    and "duration video = None"
  shows "duration video' = None \<and> readableDuration video' = Some []"
proof (rule enrichVideo_cases [of R k video h])
  fix d' st
  assume "fst (enrichVideo R k video h) =
         Inr (video\<lparr> viewCount := Statistics.viewCount st,
                     likeCount := Statistics.likeCount st,
                     commentCount := Statistics.commentCount st,
                     readableDuration := Some (parseDuration (or_js (duration video) [])) \<rparr>)"
  with assms(2,3) show ?thesis by (auto simp: or_js_def parseDuration_Nil)
qed (use assms in simp_all)

lemma enrichVideo_durationUnset:
  assumes "fst (enrichVideo R k video h) = Inr video'"
    and "duration video = None" and "readableDuration video = None"
  shows "durationUnset video'"
proof (cases "fst (getVideoDetails R k (lookupId video) h)")
  case None
  with assms enrichVideo_failed [OF None] show ?thesis by (simp add: durationUnset_def)
next
  case (Some d)
  from enrichVideo_found_plain [OF Some assms(1,2)] show ?thesis
    by (simp add: durationUnset_def)
qed

lemma enrichVideos_durationUnset:
  "fst (enrichVideos R k (map toVideoData items) h) = Inr out \<Longrightarrow> list_all durationUnset out"
proof (induction items arbitrary: h out)
  case Nil
  then show ?case by simp
next
  case (Cons it items)
  from Cons.prems obtain v' vs' where out: "out = v' # vs'"
    and first: "fst (enrichVideo R k (toVideoData it) h) = Inr v'"
    and rest: "fst (enrichVideos R k (map toVideoData items)
                    (snd (enrichVideo R k (toVideoData it) h))) = Inr vs'"
    unfolding list.map enrichVideos_Inr_Cons by blast
  have "durationUnset v'"
    by (rule enrichVideo_durationUnset [OF first]) (simp_all add: toVideoData_plain)
  with Cons.IH [OF rest] out show ?case by simp
qed

lemma processUrl_durationUnset:
  assumes "fst (processUrl R k u h) = Inr r"
  shows "list_all durationUnset (pushed r)"
proof (rule processUrl_cases [of u R k h])
  assume "processUrl R k u h = (Inr Skipped, h)"
  with assms show ?thesis by (auto simp: pushed_def)
next
  fix h1
  assume "processUrl R k u h = (Inr Skipped, h1)"
  with assms show ?thesis by (auto simp: pushed_def)
next
  fix c h1 cat h2
  assume v: "getVideos R k c h1 = (cat, h2)"
    and p: "processUrl R k u h =
         (map_sum (\<lambda>e. e) Pushed (fst (enrichVideos R k cat h2)), snd (enrichVideos R k cat h2))"
  from assms p obtain out where out: "fst (enrichVideos R k cat h2) = Inr out" and r: "r = Pushed out"
    by (cases "fst (enrichVideos R k cat h2)") auto
  from v have "cat = fst (getVideos R k c h1)" by simp
  then obtain items where "cat = map toVideoData items"
    using getVideos_items [of R k c h1] by blast
  with out have "list_all durationUnset out" using enrichVideos_durationUnset by blast
  with r show ?thesis by (simp add: pushed_def)
qed

lemma processUrls_durationUnset:
  "fst (processUrls R k urls [] h) = Inr out \<Longrightarrow> list_all durationUnset out"
proof (induction urls arbitrary: h out)
  case Nil
  then show ?case by simp
next
  case (Cons u us)
  let ?h = "snd (processUrl R k u h)"
  from Cons.prems obtain r rest where r: "fst (processUrl R k u h) = Inr r"
    and rest: "fst (processUrls R k us [] ?h) = Inr rest" and out: "out = pushed r @ rest"
    unfolding processUrls_Cons [of R k u us "[]" h]
    by (cases "fst (processUrl R k u h)"; cases "fst (processUrls R k us [] ?h)") auto
  from Cons.IH [OF rest] processUrl_durationUnset [OF r] out show ?case by simp
qed

subsection \<open>A row that reaches its catalog\<close>

lemma reached_row:
  assumes e: "extractHandleFromUrl u = Some handle"
    and g: "getChannelId R k handle h = (Some c, h1)"
    and v: "getVideos R k c h1 = (cat, h2)"
    and en: "enrichVideos R k cat h2 = (Inr out, h3)"
  shows "processUrl R k u h = (Inr (Pushed out), h3)"
    and "processUrls R k (u # us) allVideos h = processUrls R k us (allVideos @ out) h3"
    and "fst (processUrls R k us [] h3) = Inr rest \<Longrightarrow>
         fst (processUrls R k (u # us) allVideos h) = Inr (allVideos @ out @ rest)"
proof -
  show p: "processUrl R k u h = (Inr (Pushed out), h3)"
    using processUrl_reached [OF e g v] en by simp
  then show q: "processUrls R k (u # us) allVideos h = processUrls R k us (allVideos @ out) h3"
    by simp
  assume "fst (processUrls R k us [] h3) = Inr rest"
  then show "fst (processUrls R k (u # us) allVideos h) = Inr (allVideos @ out @ rest)"
    unfolding q by (subst processUrls_acc) simp
qed

lemma demoRemote_statisticsPresent: "statisticsPresent (demoRemote n)"
  by (auto simp: statisticsPresent_def demoRemote_def demoDetails_def split: if_splits)

text \<open>
  What the inner loop makes of a catalog when no read in it throws: one video for each
  catalog video, at the same position and with the same summary; where the detail
  lookup returned nothing, the catalog video unchanged, its five enrichment fields
  absent.
\<close>

lemma failed_lookup_keeps_video:
  assumes e: "extractHandleFromUrl u = Some handle"
    and g: "getChannelId R k handle h = (Some c, h1)"
    and v: "getVideos R k c h1 = (cat, h2)"
    and en: "enrichVideos R k cat h2 = (Inr out, h3)"
  shows "processUrls R k (u # us) allVideos h = processUrls R k us (allVideos @ out) h3"
    and "length out = length cat"
    and "\<forall>i<length cat. summaryOf (out ! i) = cat ! i"
    and "\<forall>i<length cat.
        fst (getVideoDetails R k (lookupId (cat ! i)) (h2 @ detailRequests k (take i cat))) = None
        \<longrightarrow> out ! i = cat ! i \<and>
            viewCount (out ! i) = None \<and> likeCount (out ! i) = None \<and>
            commentCount (out ! i) = None \<and> duration (out ! i) = None \<and>
            readableDuration (out ! i) = None"
proof -
  from en have out: "fst (enrichVideos R k cat h2) = Inr out" by simp
  show "processUrls R k (u # us) allVideos h = processUrls R k us (allVideos @ out) h3"
    by (rule reached_row(2) [OF e g v en])
  show len: "length out = length cat" by (rule enrichVideos_length [OF out])
  show "\<forall>i<length cat. summaryOf (out ! i) = cat ! i"
  proof (intro allI impI)
    fix i assume i: "i < length cat"
    from summaryOf_enrichVideos [OF out]
    have "map summaryOf out ! i = map summaryOf cat ! i" by simp
    with i len have "summaryOf (out ! i) = summaryOf (cat ! i)" by simp
    moreover from getVideos_plain [OF v i] obtain it where "cat ! i = toVideoData it" ..
    ultimately show "summaryOf (out ! i) = cat ! i" by (simp add: summaryOf_toVideoData)
  qed
  show "\<forall>i<length cat.
        fst (getVideoDetails R k (lookupId (cat ! i)) (h2 @ detailRequests k (take i cat))) = None
        \<longrightarrow> out ! i = cat ! i \<and>
            viewCount (out ! i) = None \<and> likeCount (out ! i) = None \<and>
            commentCount (out ! i) = None \<and> duration (out ! i) = None \<and>
            readableDuration (out ! i) = None"
  proof (intro allI impI)
    fix i assume i: "i < length cat"
      and f: "fst (getVideoDetails R k (lookupId (cat ! i)) (h2 @ detailRequests k (take i cat))) = None"
    from enrichVideos_nth [OF out i] enrichVideo_failed [OF f]
    have same: "out ! i = cat ! i" by simp
    from getVideos_plain [OF v i] obtain it where "cat ! i = toVideoData it" ..
    with same toVideoData_plain [of it]
    show "out ! i = cat ! i \<and>
            viewCount (out ! i) = None \<and> likeCount (out ! i) = None \<and>
            commentCount (out ! i) = None \<and> duration (out ! i) = None \<and>
            readableDuration (out ! i) = None"
      by simp
  qed
qed

section \<open>The claims about the remote calls\<close>




text \<open>
  \<^bold>\<open>C8\<close>, as the specification states it, fails at one input: the \<^verbatim>\<open>|| null\<close> of the
  return statement turns an empty identifier of the first record into \<^verbatim>\<open>null\<close>.
\<close>

theorem getChannelId_first_counterexample:
  "channelsApi (demoRemote 0) [] (channelsUrl ''KEY'' ''blank'') =
     Json (Some [\<lparr> Channel.id = [] \<rparr>]) \<and>
   fst (getChannelId (demoRemote 0) ''KEY'' ''blank'' []) = None \<and>
   fst (getChannelId (demoRemote 0) ''KEY'' ''blank'' []) \<noteq> Some (Channel.id \<lparr> Channel.id = [] \<rparr>)"
  by code_simp

text \<open>
  \<^bold>\<open>C8\<close>, amended. \<^verbatim>\<open>getChannelId\<close> returns the identifier of the first record of the
  answer when that identifier is not the empty string. It returns \<^verbatim>\<open>null\<close> when the first
  identifier is empty, when there is no record, when the answer has no \<^verbatim>\<open>items\<close>, and
  when the request or the reading of its body throws. It makes one request and has no
  other outcome.
\<close>

theorem getChannelId_spec:
  "(channelsApi R h (channelsUrl k handle) = Json (Some (c # cs)) \<and> Channel.id c \<noteq> []
      \<longrightarrow> fst (getChannelId R k handle h) = Some (Channel.id c)) \<and>
   (channelsApi R h (channelsUrl k handle) = Json (Some (c # cs)) \<and> Channel.id c = []
      \<longrightarrow> fst (getChannelId R k handle h) = None) \<and>
   (channelsApi R h (channelsUrl k handle) = Json (Some [])
      \<longrightarrow> fst (getChannelId R k handle h) = None) \<and>
   (channelsApi R h (channelsUrl k handle) = Json None \<or>
    channelsApi R h (channelsUrl k handle) = Threw
      \<longrightarrow> fst (getChannelId R k handle h) = None) \<and>
   snd (getChannelId R k handle h) = h @ [channelsUrl k handle]"
  by (auto simp: getChannelId_def Let_def)

theorem getChannelId_spec_witness:
  "fst (getChannelId (demoRemote 0) ''KEY'' ''beta'' []) = Some ''UC_beta'' \<and>
   fst (getChannelId (demoRemote 0) ''KEY'' ''nobody'' []) = None \<and>
   fst (getChannelId (demoRemote 0) ''KEY'' ''elsewhere'' []) = None"
proof -
  have b: "channelsApi (demoRemote 0) [] (channelsUrl ''KEY'' ''beta'') =
      Json (Some (\<lparr> Channel.id = ''UC_beta'' \<rparr> # [\<lparr> Channel.id = ''UC_other'' \<rparr>])) \<and>
      Channel.id \<lparr> Channel.id = ''UC_beta'' \<rparr> \<noteq> []"
    by code_simp
  have n: "channelsApi (demoRemote 0) [] (channelsUrl ''KEY'' ''nobody'') = Json (Some [])"
    by code_simp
  have e: "channelsApi (demoRemote 0) [] (channelsUrl ''KEY'' ''elsewhere'') = Json None \<or>
           channelsApi (demoRemote 0) [] (channelsUrl ''KEY'' ''elsewhere'') = Threw"
    by code_simp
  have "fst (getChannelId (demoRemote 0) ''KEY'' ''beta'' []) =
          Some (Channel.id \<lparr> Channel.id = ''UC_beta'' \<rparr>)"
    using getChannelId_spec [of "demoRemote 0" "[]" "''KEY''" "''beta''"
        "\<lparr> Channel.id = ''UC_beta'' \<rparr>" "[\<lparr> Channel.id = ''UC_other'' \<rparr>]"] b
    by blast
  moreover have "fst (getChannelId (demoRemote 0) ''KEY'' ''nobody'' []) = None"
    using getChannelId_spec [of "demoRemote 0" "[]" "''KEY''" "''nobody''"] n by blast
  moreover have "fst (getChannelId (demoRemote 0) ''KEY'' ''elsewhere'' []) = None"
    using getChannelId_spec [of "demoRemote 0" "[]" "''KEY''" "''elsewhere''"] e by blast
  ultimately show ?thesis by simp
qed

section \<open>The claims about the run\<close>

text \<open>
  A run on seven rows, against the remote side above with a catalog of three: the catalog
  of the first row throws, the second row has no handle, the third no channel, the
  fourth gives the three videos, the fifth has an empty identifier, and the last two
  rows are never requested.
\<close>

lemma demo_run:
  "fst (processYouTubeChannels (demoRemote 3) ''KEY'' demoSheet []) =
     Inr (Some [(toVideoData (demoItem ''vid0''))
                  \<lparr> viewCount := Some ''100'', likeCount := Some ''7'',
                    readableDuration := Some [] \<rparr>,
                toVideoData (demoItem ''vid1''), toVideoData (demoItem ''vid2'')]) \<and>
   snd (processYouTubeChannels (demoRemote 3) ''KEY'' demoSheet []) =
     [channelsUrl ''KEY'' ''beta'', searchUrl ''KEY'' ''UC_beta'',
      channelsUrl ''KEY'' ''nobody'',
      channelsUrl ''KEY'' ''alpha'', searchUrl ''KEY'' ''UC_alpha'',
      videosUrl ''KEY'' (Some ''vid0''), videosUrl ''KEY'' (Some ''vid1''),
      videosUrl ''KEY'' (Some ''vid2''),
      channelsUrl ''KEY'' ''blank'']"
  by code_simp

text \<open>
  \<^bold>\<open>C6.\<close> The run depends on the first five rows of the sheet only: its result and the
  requests it makes are those of the run on the sheet cut to five rows, so with seven
  rows the sixth and seventh are never looked at. The run on five rows is the outer
  loop over all five, and the cut list has at most five catalog sequences.
\<close>

theorem input_cap:
  "processYouTubeChannels R k sheet h = processYouTubeChannels R k (take 5 sheet) h \<and>
   processYouTubeChannels R k (u1 # u2 # u3 # u4 # u5 # u6 # u7 # beyond) h =
     processYouTubeChannels R k [u1, u2, u3, u4, u5] h \<and>
   processYouTubeChannels R k [u1, u2, u3, u4, u5] h =
     (map_sum (\<lambda>e. e) Some (fst (processUrls R k [u1, u2, u3, u4, u5] [] h)),
      snd (processUrls R k [u1, u2, u3, u4, u5] [] h)) \<and>
   length (catalogItems R k (take 5 sheet) h) \<le> 5"
proof (intro conjI)
  show "processYouTubeChannels R k sheet h = processYouTubeChannels R k (take 5 sheet) h"
    by (simp add: processYouTubeChannels_def)
  show "processYouTubeChannels R k (u1 # u2 # u3 # u4 # u5 # u6 # u7 # beyond) h =
     processYouTubeChannels R k [u1, u2, u3, u4, u5] h"
    by (simp add: processYouTubeChannels_def)
  show "processYouTubeChannels R k [u1, u2, u3, u4, u5] h =
     (map_sum (\<lambda>e. e) Some (fst (processUrls R k [u1, u2, u3, u4, u5] [] h)),
      snd (processUrls R k [u1, u2, u3, u4, u5] [] h))"
    by (subst processYouTubeChannels_loop) simp
  have "length (catalogItems R k urls h) = length urls" for urls
    by (induction urls arbitrary: h) simp_all
  then show "length (catalogItems R k (take 5 sheet) h) \<le> 5" by simp
qed



text \<open>
  \<^bold>\<open>C9.\<close> When the catalog request throws, or its answer has no \<^verbatim>\<open>items\<close> to map over,
  \<^verbatim>\<open>getVideos\<close> returns the empty list after its one request. A row whose catalog is
  empty appends nothing, and the run goes on with the following rows from there.
\<close>

theorem catalog_failure_skips_row:
  "(searchApi R h1 (searchUrl k c) = Threw \<or> searchApi R h1 (searchUrl k c) = Json None
      \<longrightarrow> getVideos R k c h1 = ([], h1 @ [searchUrl k c])) \<and>
   (extractHandleFromUrl u = Some handle \<and> getChannelId R k handle h = (Some c, h1) \<and>
    fst (getVideos R k c h1) = []
      \<longrightarrow> processUrl R k u h = (Inr (Pushed []), h1 @ [searchUrl k c]) \<and>
          processUrls R k (u # us) allVideos h =
            processUrls R k us allVideos (h1 @ [searchUrl k c]))"
proof (intro conjI impI)
  assume "searchApi R h1 (searchUrl k c) = Threw \<or> searchApi R h1 (searchUrl k c) = Json None"
  then show "getVideos R k c h1 = ([], h1 @ [searchUrl k c])"
    by (auto simp: getVideos_def Let_def)
next
  assume a: "extractHandleFromUrl u = Some handle \<and> getChannelId R k handle h = (Some c, h1) \<and>
    fst (getVideos R k c h1) = []"
  then have g: "getVideos R k c h1 = ([], h1 @ [searchUrl k c])"
    using getVideos_requests [of R k c h1] by (cases "getVideos R k c h1") simp
  from a have e: "extractHandleFromUrl u = Some handle"
    and ch: "getChannelId R k handle h = (Some c, h1)" by simp_all
  have en: "enrichVideos R k [] (h1 @ [searchUrl k c]) = (Inr [], h1 @ [searchUrl k c])" by simp
  from reached_row(1) [OF e ch g en]
  show p: "processUrl R k u h = (Inr (Pushed []), h1 @ [searchUrl k c])" .
  from reached_row(2) [OF e ch g en, of us allVideos]
  show "processUrls R k (u # us) allVideos h =
            processUrls R k us allVideos (h1 @ [searchUrl k c])"
    by simp
qed

theorem catalog_failure_skips_row_witness:
  "getVideos (demoRemote 3) ''KEY'' ''UC_beta'' [channelsUrl ''KEY'' ''beta''] =
     ([], [channelsUrl ''KEY'' ''beta''] @ [searchUrl ''KEY'' ''UC_beta'']) \<and>
   processUrls (demoRemote 3) ''KEY''
       (''https://www.youtube.com/@beta'' # [''https://www.youtube.com/@alpha'']) [] [] =
     processUrls (demoRemote 3) ''KEY'' [''https://www.youtube.com/@alpha''] []
       ([channelsUrl ''KEY'' ''beta''] @ [searchUrl ''KEY'' ''UC_beta''])"
proof -
  let ?h1 = "[channelsUrl ''KEY'' ''beta'']"
  have s: "searchApi (demoRemote 3) ?h1 (searchUrl ''KEY'' ''UC_beta'') = Threw \<or>
           searchApi (demoRemote 3) ?h1 (searchUrl ''KEY'' ''UC_beta'') = Json None"
    by code_simp
  note spec = catalog_failure_skips_row [where R = "demoRemote 3" and ?h1.0 = ?h1
      and k = "''KEY''" and c = "''UC_beta''" and u = "''https://www.youtube.com/@beta''"
      and handle = "''beta''" and h = "[]" and us = "[''https://www.youtube.com/@alpha'']"
      and allVideos = "[]"]
  from spec s have g: "getVideos (demoRemote 3) ''KEY'' ''UC_beta'' ?h1 =
      ([], ?h1 @ [searchUrl ''KEY'' ''UC_beta''])"
    by blast
  have e: "extractHandleFromUrl ''https://www.youtube.com/@beta'' = Some ''beta''"
    by code_simp
  have c: "getChannelId (demoRemote 3) ''KEY'' ''beta'' [] = (Some ''UC_beta'', ?h1)"
    by code_simp
  from g have "fst (getVideos (demoRemote 3) ''KEY'' ''UC_beta'' ?h1) = []" by simp
  with spec e c have "processUrls (demoRemote 3) ''KEY''
       (''https://www.youtube.com/@beta'' # [''https://www.youtube.com/@alpha'']) [] [] =
     processUrls (demoRemote 3) ''KEY'' [''https://www.youtube.com/@alpha''] []
       (?h1 @ [searchUrl ''KEY'' ''UC_beta''])"
    by blast
  with g show ?thesis by (rule conjI)
qed




text \<open>
  \<^bold>\<open>C2.\<close> A video whose detail lookup fails is kept by the inner loop, but it does not
  always reach the output. Here the catalog of the row has three videos. The detail lookup of the second returns nothing, and the video is kept as it
  is; the lookup of the third returns a record without \<^verbatim>\<open>statistics\<close>, and the read of
  \<^verbatim>\<open>details.statistics.viewCount\<close> throws. Nothing catches it: the run ends before
  \<^verbatim>\<open>allVideos.push\<close> and \<^verbatim>\<open>writeToExcel\<close>, no row is handed on, and the second video is in
  no output. Against the remote side whose third lookup finds nothing instead, the same
  sheet hands on three rows.
\<close>

theorem missing_statistics_ends_run:
  "extractHandleFromUrl ''https://www.youtube.com/@alpha'' = Some ''alpha'' \<and>
   getChannelId bareRemote ''KEY'' ''alpha'' [] = (Some ''UC_alpha'', [channelsUrl ''KEY'' ''alpha'']) \<and>
   getVideos bareRemote ''KEY'' ''UC_alpha'' [channelsUrl ''KEY'' ''alpha''] =
     ([toVideoData (demoItem ''vid0''), toVideoData (demoItem ''vid1''),
       toVideoData (demoItem ''vid2'')],
      [channelsUrl ''KEY'' ''alpha'', searchUrl ''KEY'' ''UC_alpha'']) \<and>
   getVideoDetails bareRemote ''KEY'' (Some ''vid1'')
       [channelsUrl ''KEY'' ''alpha'', searchUrl ''KEY'' ''UC_alpha'',
        videosUrl ''KEY'' (Some ''vid0'')] =
     (None, [channelsUrl ''KEY'' ''alpha'', searchUrl ''KEY'' ''UC_alpha'',
             videosUrl ''KEY'' (Some ''vid0''), videosUrl ''KEY'' (Some ''vid1'')]) \<and>
   getVideoDetails bareRemote ''KEY'' (Some ''vid2'')
       [channelsUrl ''KEY'' ''alpha'', searchUrl ''KEY'' ''UC_alpha'',
        videosUrl ''KEY'' (Some ''vid0''), videosUrl ''KEY'' (Some ''vid1'')] =
     (Some bareDetails,
      [channelsUrl ''KEY'' ''alpha'', searchUrl ''KEY'' ''UC_alpha'',
       videosUrl ''KEY'' (Some ''vid0''), videosUrl ''KEY'' (Some ''vid1''),
       videosUrl ''KEY'' (Some ''vid2'')]) \<and>
   statistics bareDetails = None \<and>
   processYouTubeChannels bareRemote ''KEY'' [''https://www.youtube.com/@alpha''] [] =
     (Inl TypeError,
      [channelsUrl ''KEY'' ''alpha'', searchUrl ''KEY'' ''UC_alpha'',
       videosUrl ''KEY'' (Some ''vid0''), videosUrl ''KEY'' (Some ''vid1''),
       videosUrl ''KEY'' (Some ''vid2'')]) \<and>
   rowCount (fst (processYouTubeChannels bareRemote ''KEY''
      [''https://www.youtube.com/@alpha''] [])) = None \<and>
   rowCount (fst (processYouTubeChannels (demoRemote 3) ''KEY''
      [''https://www.youtube.com/@alpha''] [])) = Some 3"
  by code_simp

text \<open>
  \<^bold>\<open>C4.\<close> The assignment of \<^verbatim>\<open>video.duration\<close> is commented out, and nothing else sets the
  field: no video handed to the output has a duration, and its readable duration is
  absent or the empty string. For a row that reaches its catalog and whose inner loop
  runs to its end, a video whose detail lookup returns a record, whatever its content
  details say, gets as readable duration \<^verbatim>\<open>parseDuration\<close> of its own absent duration,
  which is \<^verbatim>\<open>parseDuration("")\<close>, the empty string.
\<close>

theorem duration_never_populated:
  "(fst (processUrls R k urls [] h) = Inr handed \<longrightarrow>
      list_all (\<lambda>video. duration video = None \<and>
                  (readableDuration video = None \<or> readableDuration video = Some []))
        handed) \<and>
   parseDuration [] = [] \<and>
   (extractHandleFromUrl u = Some handle \<and> getChannelId R k handle h = (Some c, h1) \<and>
    getVideos R k c h1 = (cat, h2) \<and> enrichVideos R k cat h2 = (Inr out, h3)
    \<longrightarrow>
      processUrls R k (u # us) allVideos h = processUrls R k us (allVideos @ out) h3 \<and>
      (\<forall>rest. fst (processUrls R k us [] h3) = Inr rest \<longrightarrow>
         fst (processUrls R k (u # us) allVideos h) = Inr (allVideos @ out @ rest)) \<and>
      length out = length cat \<and>
      (\<forall>i<length cat. \<forall>d.
         fst (getVideoDetails R k (lookupId (cat ! i)) (h2 @ detailRequests k (take i cat))) = Some d
         \<longrightarrow> duration (out ! i) = None \<and>
             readableDuration (out ! i) = Some (parseDuration (or_js (duration (cat ! i)) [])) \<and>
             readableDuration (out ! i) = Some []))"
proof (intro conjI)
  show "fst (processUrls R k urls [] h) = Inr handed \<longrightarrow>
      list_all (\<lambda>video. duration video = None \<and>
                  (readableDuration video = None \<or> readableDuration video = Some []))
        handed"
  proof
    assume "fst (processUrls R k urls [] h) = Inr handed"
    then have "list_all durationUnset handed" by (rule processUrls_durationUnset)
    then show "list_all (\<lambda>video. duration video = None \<and>
                  (readableDuration video = None \<or> readableDuration video = Some []))
        handed"
      by (simp add: durationUnset_def [abs_def])
  qed
  show "parseDuration [] = []" by (rule parseDuration_Nil)
  show "extractHandleFromUrl u = Some handle \<and> getChannelId R k handle h = (Some c, h1) \<and>
    getVideos R k c h1 = (cat, h2) \<and> enrichVideos R k cat h2 = (Inr out, h3)
    \<longrightarrow>
      processUrls R k (u # us) allVideos h = processUrls R k us (allVideos @ out) h3 \<and>
      (\<forall>rest. fst (processUrls R k us [] h3) = Inr rest \<longrightarrow>
         fst (processUrls R k (u # us) allVideos h) = Inr (allVideos @ out @ rest)) \<and>
      length out = length cat \<and>
      (\<forall>i<length cat. \<forall>d.
         fst (getVideoDetails R k (lookupId (cat ! i)) (h2 @ detailRequests k (take i cat))) = Some d
         \<longrightarrow> duration (out ! i) = None \<and>
             readableDuration (out ! i) = Some (parseDuration (or_js (duration (cat ! i)) [])) \<and>
             readableDuration (out ! i) = Some [])"
  proof (intro impI, elim conjE)
    assume e: "extractHandleFromUrl u = Some handle"
      and g: "getChannelId R k handle h = (Some c, h1)"
      and v: "getVideos R k c h1 = (cat, h2)"
      and en: "enrichVideos R k cat h2 = (Inr out, h3)"
    from en have out: "fst (enrichVideos R k cat h2) = Inr out" by simp
    have 1: "processUrls R k (u # us) allVideos h = processUrls R k us (allVideos @ out) h3"
      by (rule reached_row(2) [OF e g v en])
    have 2: "\<forall>rest. fst (processUrls R k us [] h3) = Inr rest \<longrightarrow>
         fst (processUrls R k (u # us) allVideos h) = Inr (allVideos @ out @ rest)"
      using reached_row(3) [OF e g v en] by blast
    have 3: "length out = length cat" by (rule enrichVideos_length [OF out])
    have 4: "\<forall>i<length cat. \<forall>d.
         fst (getVideoDetails R k (lookupId (cat ! i)) (h2 @ detailRequests k (take i cat))) = Some d
         \<longrightarrow> duration (out ! i) = None \<and>
             readableDuration (out ! i) = Some (parseDuration (or_js (duration (cat ! i)) [])) \<and>
             readableDuration (out ! i) = Some []"
    proof (intro allI impI)
      fix i d
      assume i: "i < length cat"
        and f: "fst (getVideoDetails R k (lookupId (cat ! i)) (h2 @ detailRequests k (take i cat))) = Some d"
      from getVideos_plain [OF v i] obtain it where "cat ! i = toVideoData it" ..
      then have du: "duration (cat ! i) = None" by (simp add: toVideoData_plain)
      from enrichVideo_found_plain [OF f enrichVideos_nth [OF out i] du] du
      show "duration (out ! i) = None \<and>
             readableDuration (out ! i) = Some (parseDuration (or_js (duration (cat ! i)) [])) \<and>
             readableDuration (out ! i) = Some []"
        by (simp add: or_js_def parseDuration_Nil)
    qed
    from 1 2 3 4 show "processUrls R k (u # us) allVideos h = processUrls R k us (allVideos @ out) h3 \<and>
      (\<forall>rest. fst (processUrls R k us [] h3) = Inr rest \<longrightarrow>
         fst (processUrls R k (u # us) allVideos h) = Inr (allVideos @ out @ rest)) \<and>
      length out = length cat \<and>
      (\<forall>i<length cat. \<forall>d.
         fst (getVideoDetails R k (lookupId (cat ! i)) (h2 @ detailRequests k (take i cat))) = Some d
         \<longrightarrow> duration (out ! i) = None \<and>
             readableDuration (out ! i) = Some (parseDuration (or_js (duration (cat ! i)) [])) \<and>
             readableDuration (out ! i) = Some [])"
      by (intro conjI)
  qed
qed

theorem duration_never_populated_witness:
  "fst (getVideoDetails (demoRemote 3) ''KEY'' (lookupId (toVideoData (demoItem ''vid0'')))
         ([channelsUrl ''KEY'' ''alpha'', searchUrl ''KEY'' ''UC_alpha''] @
          detailRequests ''KEY'' [])) = Some demoDetails \<and>
   ContentDetails.duration (contentDetails demoDetails) = Some ''PT2H3M4S'' \<and>
   fst (processUrls (demoRemote 3) ''KEY'' [''https://www.youtube.com/@alpha''] [] []) =
     Inr [(toVideoData (demoItem ''vid0''))
            \<lparr> viewCount := Some ''100'', likeCount := Some ''7'', readableDuration := Some [] \<rparr>,
          toVideoData (demoItem ''vid1''), toVideoData (demoItem ''vid2'')] \<and>
   duration ([(toVideoData (demoItem ''vid0''))
            \<lparr> viewCount := Some ''100'', likeCount := Some ''7'', readableDuration := Some [] \<rparr>,
          toVideoData (demoItem ''vid1''), toVideoData (demoItem ''vid2'')] ! 0) = None \<and>
   readableDuration ([(toVideoData (demoItem ''vid0''))
            \<lparr> viewCount := Some ''100'', likeCount := Some ''7'', readableDuration := Some [] \<rparr>,
          toVideoData (demoItem ''vid1''), toVideoData (demoItem ''vid2'')] ! 0) = Some []"
proof -
  let ?R = "demoRemote 3"
  let ?u = "''https://www.youtube.com/@alpha''"
  let ?h1 = "[channelsUrl ''KEY'' ''alpha'']"
  let ?h2 = "[channelsUrl ''KEY'' ''alpha'', searchUrl ''KEY'' ''UC_alpha'']"
  let ?cat = "[toVideoData (demoItem ''vid0''), toVideoData (demoItem ''vid1''),
               toVideoData (demoItem ''vid2'')]"
  let ?handed = "[(toVideoData (demoItem ''vid0''))
            \<lparr> viewCount := Some ''100'', likeCount := Some ''7'', readableDuration := Some [] \<rparr>,
          toVideoData (demoItem ''vid1''), toVideoData (demoItem ''vid2'')]"
  obtain out h3 where en: "enrichVideos ?R ''KEY'' ?cat ?h2 = (Inr out, h3)"
    using enrichVideos_present [OF demoRemote_statisticsPresent, of 3 "''KEY''" ?cat ?h2]
    by (cases "enrichVideos ?R ''KEY'' ?cat ?h2") auto
  have e: "extractHandleFromUrl ?u = Some ''alpha''" by code_simp
  have g: "getChannelId ?R ''KEY'' ''alpha'' [] = (Some ''UC_alpha'', ?h1)" by code_simp
  have v: "getVideos ?R ''KEY'' ''UC_alpha'' ?h1 = (?cat, ?h2)" by code_simp
  have f: "fst (getVideoDetails ?R ''KEY'' (lookupId (toVideoData (demoItem ''vid0'')))
         (?h2 @ detailRequests ''KEY'' [])) = Some demoDetails"
    by code_simp
  have cd: "ContentDetails.duration (contentDetails demoDetails) = Some ''PT2H3M4S''"
    by code_simp
  have handed: "fst (processUrls ?R ''KEY'' [?u] [] []) = Inr ?handed" by code_simp
  note spec = duration_never_populated [where R = ?R and k = "''KEY''" and h = "[]" and u = ?u
      and handle = "''alpha''" and c = "''UC_alpha''" and ?h1.0 = ?h1 and cat = ?cat
      and ?h2.0 = ?h2 and out = out and ?h3.0 = h3 and us = "[]" and allVideos = "[]"]
  from spec e g v en
  have run: "processUrls ?R ''KEY'' [?u] [] [] = processUrls ?R ''KEY'' [] ([] @ out) h3"
    and found: "\<forall>i<length ?cat. \<forall>d.
        fst (getVideoDetails ?R ''KEY'' (lookupId (?cat ! i)) (?h2 @ detailRequests ''KEY'' (take i ?cat))) = Some d
        \<longrightarrow> duration (out ! i) = None \<and>
            readableDuration (out ! i) = Some (parseDuration (or_js (duration (?cat ! i)) [])) \<and>
            readableDuration (out ! i) = Some []"
    by blast+
  have len: "0 < length ?cat" by simp
  have f0: "fst (getVideoDetails ?R ''KEY'' (lookupId (?cat ! 0))
               (?h2 @ detailRequests ''KEY'' (take 0 ?cat))) = Some demoDetails"
    using f by simp
  from found [rule_format, OF len f0]
  have first: "duration (out ! 0) = None \<and> readableDuration (out ! 0) = Some []" by blast
  have "fst (processUrls ?R ''KEY'' [?u] [] []) = Inr out"
    unfolding run by simp
  with handed have "out = ?handed" by simp
  with first have "duration (?handed ! 0) = None \<and> readableDuration (?handed ! 0) = Some []"
    by (simp only:)
  with f cd handed show ?thesis by (intro conjI) (simp_all only:)
qed

end
